theory Spec2Isabelle
  imports Main
begin

section \<open>JavaScript values, objects and exceptions\<close>

text \<open>
  The desktop database layer handles values of TypeScript type \<open>unknown\<close>. The values
  that can reach it (JSON request bodies, SQLite cells) are modelled by \<open>jsval\<close>.
  Numbers are the integers (SQLite INTEGER cells and JSON integers; fractions and NaN
  are left out); a \<open>Record<string, unknown>\<close> is the list of its own entries in
  \<open>Object.entries\<close> order, with pairwise distinct keys. The coercions return the list
  of the assignments \<open>result[key] = value\<close> they make on an empty object; where the
  properties of that object are read back (the insert path), \<open>object_of\<close> below gives
  the object the assignments build, own key \<open>__proto__\<close> included.
\<close>

datatype jsval =
    JUndefined
  | JNull
  | JBool bool
  | JNum int
  | JStr string
  | JArr "jsval list"
  | JObj "(string \<times> jsval) list"

type_synonym obj = "(string \<times> jsval) list"

text \<open>
  A thrown value: an instance of \<open>Error\<close> (any subclass, with its message) or any other
  value. A function that can throw returns \<open>js_error + 'a\<close>.
\<close>

datatype js_error = JsError string | Thrown jsval

definition andThen :: "'e + 'a \<Rightarrow> ('a \<Rightarrow> 'e + 'b) \<Rightarrow> 'e + 'b" where
  "andThen m f = (case m of Inl e \<Rightarrow> Inl e | Inr x \<Rightarrow> f x)"

text \<open>JavaScript truthiness (\<open>value ? a : b\<close>, \<open>!value\<close>, \<open>a || b\<close>).\<close>

fun truthy :: "jsval \<Rightarrow> bool" where
  "truthy JUndefined = False"
| "truthy JNull = False"
| "truthy (JBool b) = b"
| "truthy (JNum n) = (n \<noteq> 0)"
| "truthy (JStr s) = (s \<noteq> [])"
| "truthy (JArr vs) = True"
| "truthy (JObj kvs) = True"

text \<open>Property read \<open>o.k\<close> and property write \<open>o.k = v\<close> on a plain record.\<close>

definition obj_get :: "obj \<Rightarrow> string \<Rightarrow> jsval" where
  "obj_get ob k = (case map_of ob k of None \<Rightarrow> JUndefined | Some v \<Rightarrow> v)"

fun obj_set :: "string \<Rightarrow> jsval \<Rightarrow> obj \<Rightarrow> obj" where
  "obj_set k v [] = [(k, v)]"
| "obj_set k v ((k', v') # kvs) =
     (if k' = k then (k, v) # kvs else (k', v') # obj_set k v kvs)"

section \<open>type-coerce.ts\<close>

text \<open>
  \<open>BOOLEAN_COLUMNS\<close> and \<open>JSON_COLUMNS\<close> are object literals indexed by the table name.
  Indexing an object literal with a name it does not declare gives \<open>undefined\<close>, except
  for the names every object inherits from \<open>Object.prototype\<close>, where it gives the
  inherited function or object, which has no \<open>has\<close> method.
\<close>

datatype table_entry = ColumnSet "string list" | Inherited | NoEntry

definition object_prototype_names :: "string list" where
  "object_prototype_names =
     [''constructor'', ''hasOwnProperty'', ''isPrototypeOf'', ''propertyIsEnumerable'',
      ''toLocaleString'', ''toString'', ''valueOf'', ''__proto__'',
      ''__defineGetter__'', ''__defineSetter__'', ''__lookupGetter__'', ''__lookupSetter__'']"

definition BOOLEAN_COLUMNS :: "string \<Rightarrow> table_entry" where
  "BOOLEAN_COLUMNS t =
     (if t = ''people'' then ColumnSet [''is_living'', ''is_patrilineal'']
      else if t = ''events'' then ColumnSet [''recurring'']
      else if t = ''media'' then ColumnSet [''is_primary'']
      else if t = ''achievements'' then ColumnSet [''is_featured'']
      else if t = ''clan_articles'' then ColumnSet [''is_featured'']
      else if t = ''cau_duong_pools'' then ColumnSet [''is_active'']
      else if t \<in> set object_prototype_names then Inherited
      else NoEntry)"

definition JSON_COLUMNS :: "string \<Rightarrow> table_entry" where
  "JSON_COLUMNS t =
     (if t = ''contributions'' then ColumnSet [''changes'']
      else if t \<in> set object_prototype_names then Inherited
      else NoEntry)"

text \<open>
  \<open>cols?.has(key)\<close>: \<open>undefined\<close> (falsy) when \<open>cols\<close> is \<open>undefined\<close>, a TypeError
  when \<open>cols\<close> is an inherited member, the set's answer otherwise.
\<close>

fun has_opt :: "table_entry \<Rightarrow> string \<Rightarrow> js_error + bool" where
  "has_opt (ColumnSet cs) k = Inr (k \<in> set cs)"
| "has_opt NoEntry k = Inr False"
| "has_opt Inherited k = Inl (JsError ''has is not a function'')"

definition isBooleanColumn :: "string \<Rightarrow> string \<Rightarrow> js_error + bool" where
  "isBooleanColumn t c = has_opt (BOOLEAN_COLUMNS t) c"

text \<open>
  \<open>JSON.parse\<close> and \<open>JSON.stringify\<close> belong to the JavaScript runtime; they are
  parameters of the model. \<open>parse\<close> returns \<open>None\<close> where \<open>JSON.parse\<close> throws.
\<close>

record json_lib =
  parse :: "string \<Rightarrow> jsval option"
  stringify :: "jsval \<Rightarrow> string"

fun is_string :: "jsval \<Rightarrow> bool" where
  "is_string (JStr s) = True"
| "is_string v = False"

fun is_nonnull_object :: "jsval \<Rightarrow> bool" where
  "is_nonnull_object (JArr vs) = True"
| "is_nonnull_object (JObj kvs) = True"
| "is_nonnull_object v = False"

fun str_of :: "jsval \<Rightarrow> string" where
  "str_of (JStr s) = s"
| "str_of v = []"

text \<open>The loop of \<open>coerceRowFromSqlite\<close> over \<open>Object.entries(row)\<close>.\<close>

fun rowFromSqlite :: "json_lib \<Rightarrow> table_entry \<Rightarrow> table_entry \<Rightarrow> obj \<Rightarrow> js_error + obj" where
  "rowFromSqlite J boolCols jsonCols [] = Inr []"
| "rowFromSqlite J boolCols jsonCols ((key, val) # rest) =
     andThen (has_opt boolCols key) (\<lambda>isBool.
       andThen
         (if isBool then Inr (JBool (val = JNum 1 \<or> val = JBool True))
          else andThen (has_opt jsonCols key) (\<lambda>isJson.
            if isJson \<and> is_string val
            then (case parse J (str_of val) of Some parsed \<Rightarrow> Inr parsed | None \<Rightarrow> Inr val)
            else Inr val))
         (\<lambda>v. andThen (rowFromSqlite J boolCols jsonCols rest) (\<lambda>r. Inr ((key, v) # r))))"

definition coerceRowFromSqlite :: "json_lib \<Rightarrow> string \<Rightarrow> obj \<Rightarrow> js_error + obj" where
  "coerceRowFromSqlite J t row = rowFromSqlite J (BOOLEAN_COLUMNS t) (JSON_COLUMNS t) row"

text \<open>The loop of \<open>coerceDataToSqlite\<close> over \<open>Object.entries(data)\<close>.\<close>

fun dataToSqlite :: "json_lib \<Rightarrow> table_entry \<Rightarrow> table_entry \<Rightarrow> obj \<Rightarrow> js_error + obj" where
  "dataToSqlite J boolCols jsonCols [] = Inr []"
| "dataToSqlite J boolCols jsonCols ((key, val) # rest) =
     andThen (has_opt boolCols key) (\<lambda>isBool.
       andThen
         (if isBool then Inr (JNum (if truthy val then 1 else 0))
          else andThen (has_opt jsonCols key) (\<lambda>isJson.
            if isJson \<and> is_nonnull_object val
            then Inr (JStr (stringify J val))
            else Inr val))
         (\<lambda>v. andThen (dataToSqlite J boolCols jsonCols rest) (\<lambda>r. Inr ((key, v) # r))))"

definition coerceDataToSqlite :: "json_lib \<Rightarrow> string \<Rightarrow> obj \<Rightarrow> js_error + obj" where
  "coerceDataToSqlite J t data = dataToSqlite J (BOOLEAN_COLUMNS t) (JSON_COLUMNS t) data"

text \<open>A JSON library used to evaluate the model on concrete inputs that have no
  structured-document column: it parses nothing and serialises to the empty text.\<close>

definition no_json :: json_lib where
  "no_json = \<lparr>parse = (\<lambda>s. None), stringify = (\<lambda>v. [])\<rparr>"

section \<open>Text helpers\<close>

text \<open>
  A string is a list of 8-bit characters: the JavaScript strings whose code units are
  below 256. \<open>join_str\<close> is \<open>Array.prototype.join\<close> on an array of strings,
  \<open>split_str\<close> is \<open>String.prototype.split\<close> with a one-character separator (it never
  returns the empty array), \<open>trim\<close> is \<open>String.prototype.trim\<close> and \<open>str_includes\<close> is
  \<open>String.prototype.includes\<close>.
\<close>

fun join_str :: "string \<Rightarrow> string list \<Rightarrow> string" where
  "join_str sep [] = []"
| "join_str sep [x] = x"
| "join_str sep (x # y # ys) = x @ sep @ join_str sep (y # ys)"

fun split_str :: "char \<Rightarrow> string \<Rightarrow> string list" where
  "split_str sep [] = [[]]"
| "split_str sep (c # cs) =
     (if c = sep then [] # split_str sep cs
      else (case split_str sep cs of
              [] \<Rightarrow> [[c]]
            | w # ws \<Rightarrow> (c # w) # ws))"

definition is_space :: "char \<Rightarrow> bool" where
  "is_space c = (c \<in> set [CHR 0x09, CHR 0x0A, CHR 0x0B, CHR 0x0C, CHR 0x0D, CHR 0x20, CHR 0xA0])"

definition trim :: "string \<Rightarrow> string" where
  "trim s = rev (dropWhile is_space (rev (dropWhile is_space s)))"

fun str_includes :: "string \<Rightarrow> string \<Rightarrow> bool" where
  "str_includes [] pat = (pat = [])"
| "str_includes (c # cs) pat = (take (length pat) (c # cs) = pat \<or> str_includes cs pat)"

text \<open>A name between double quotes, and an optional string inside a template literal.\<close>

definition quoted :: "string \<Rightarrow> string" where
  "quoted s = CHR 0x22 # s @ [CHR 0x22]"

definition tmpl :: "string option \<Rightarrow> string" where
  "tmpl s = (case s of None \<Rightarrow> ''undefined'' | Some x \<Rightarrow> x)"

text \<open>
  The decimal text of an integer, as a template literal prints a number of magnitude
  below \<open>10^21\<close> (from there on JavaScript prints an exponent).
\<close>

definition digit_char :: "nat \<Rightarrow> char" where
  "digit_char d = ''0123456789'' ! d"

fun show_nat :: "nat \<Rightarrow> string" where
  "show_nat n =
     (if n < 10 then [digit_char n]
      else show_nat (n div 10) @ [digit_char (n mod 10)])"

definition show_int :: "int \<Rightarrow> string" where
  "show_int i = (if i < 0 then CHR ''-'' # show_nat (nat (- i)) else show_nat (nat i))"

fun mapM :: "('a \<Rightarrow> 'e + 'b) \<Rightarrow> 'a list \<Rightarrow> 'e + 'b list" where
  "mapM f [] = Inr []"
| "mapM f (x # xs) = andThen (f x) (\<lambda>y. andThen (mapM f xs) (\<lambda>ys. Inr (y # ys)))"

section \<open>Objects built by assignment\<close>

text \<open>
  An object built by assignments from \<open>{}\<close>: its own entries, and the entries of its
  prototype when an assignment to \<open>__proto__\<close> has replaced \<open>Object.prototype\<close> (whose
  own members, none of them a name read here, are left out). \<open>result['__proto__'] = v\<close>
  creates no entry: it makes an object or array \<open>v\<close> the prototype, \<open>null\<close> removes the
  prototype, and any other \<open>v\<close> is ignored.
\<close>

record js_object =
  own :: obj
  inherited :: obj

fun enumerate_from :: "nat \<Rightarrow> 'a list \<Rightarrow> (nat \<times> 'a) list" where
  "enumerate_from i [] = []"
| "enumerate_from i (x # xs) = (i, x) # enumerate_from (Suc i) xs"

fun prototype_entries :: "jsval \<Rightarrow> obj option" where
  "prototype_entries (JObj kvs) = Some kvs"
| "prototype_entries (JArr vs) =
     Some (map (\<lambda>(i, v). (show_nat i, v)) (enumerate_from 0 vs)
           @ [(''length'', JNum (int (length vs)))])"
| "prototype_entries JNull = Some []"
| "prototype_entries v = None"

definition assign :: "js_object \<Rightarrow> string \<times> jsval \<Rightarrow> js_object" where
  "assign ob kv =
     (case kv of (k, v) \<Rightarrow>
        if k = ''__proto__''
        then (case prototype_entries v of
                Some es \<Rightarrow> ob\<lparr>inherited := es\<rparr>
              | None \<Rightarrow> ob)
        else ob\<lparr>own := obj_set k v (own ob)\<rparr>)"

definition object_of :: "obj \<Rightarrow> js_object" where
  "object_of entries = foldl assign \<lparr>own = [], inherited = []\<rparr> entries"

text \<open>Property read \<open>o.k\<close> through the prototype, and property write \<open>o.k = v\<close>.\<close>

definition obj_read :: "js_object \<Rightarrow> string \<Rightarrow> jsval" where
  "obj_read ob k =
     (case map_of (own ob) k of
        Some v \<Rightarrow> v
      | None \<Rightarrow> (case map_of (inherited ob) k of Some v \<Rightarrow> v | None \<Rightarrow> JUndefined))"

definition obj_write :: "string \<Rightarrow> jsval \<Rightarrow> js_object \<Rightarrow> js_object" where
  "obj_write k v ob = ob\<lparr>own := obj_set k v (own ob)\<rparr>"

section \<open>query-builder.ts: types\<close>

definition TABLES_WITH_UPDATED_AT :: "string list" where
  "TABLES_WITH_UPDATED_AT =
     [''people'', ''families'', ''profiles'', ''achievements'',
      ''clan_articles'', ''cau_duong_pools'', ''cau_duong_assignments'']"

text \<open>
  A filter as it arrives in the request: \<open>ftype\<close> is the field \<open>type\<close> and \<open>fvalue\<close> the
  field \<open>value\<close> (\<open>JUndefined\<close> when absent); an absent optional string is \<open>None\<close>.
\<close>

record Filter =
  ftype :: string
  column :: "string option"
  fvalue :: jsval
  operator :: "string option"
  condition :: "string option"

record order_by =
  o_column :: string
  ascending :: bool

datatype body = NoBody | One obj | Many "obj list"

record QueryPayload =
  table :: string
  qmethod :: string
  columns :: "string option"
  body :: body
  filters :: "Filter list"
  ordering :: "order_by list option"
  limit :: "int option"
  single :: bool
  maybeSingle :: bool

record qerror =
  message :: string
  code :: "string option"

record QueryResult =
  data :: jsval
  error :: "qerror option"

section \<open>query-builder.ts: the filter builder\<close>

text \<open>The closure \<open>coerceFilterValue\<close> of \<open>buildWhere\<close>, with the table it captures.\<close>

definition coerceFilterValue :: "string option \<Rightarrow> string option \<Rightarrow> jsval \<Rightarrow> js_error + jsval" where
  "coerceFilterValue tbl col v =
     (case col of
        None \<Rightarrow> Inr v
      | Some c \<Rightarrow>
          if c = [] then Inr v
          else (case tbl of
                  None \<Rightarrow> Inr v
                | Some t \<Rightarrow>
                    if t = [] then Inr v
                    else andThen (isBooleanColumn t c) (\<lambda>b.
                           if b \<and> v = JBool True then Inr (JNum 1)
                           else if b \<and> v = JBool False then Inr (JNum 0)
                           else Inr v)))"

record or_part =
  or_column :: string
  or_op :: string
  or_value :: string

definition or_operator :: "string option \<Rightarrow> string" where
  "or_operator opr =
     (if opr = Some ''eq'' then ''=''
      else if opr = Some ''neq'' then ''!=''
      else if opr = Some ''gt'' then ''>''
      else if opr = Some ''gte'' then ''>=''
      else if opr = Some ''lt'' then ''<''
      else if opr = Some ''lte'' then ''<=''
      else ''='')"

text \<open>The arrow function mapped over the parts by \<open>parseOrCondition\<close>.\<close>

definition parseOrPart :: "string \<Rightarrow> or_part" where
  "parseOrPart part =
     (case split_str CHR ''.'' (trim part) of
        [] \<Rightarrow> \<lparr>or_column = ''undefined'', or_op = ''='', or_value = []\<rparr>
      | col # rest \<Rightarrow>
          \<lparr>or_column = col,
           or_op = or_operator (case rest of [] \<Rightarrow> None | opr # others \<Rightarrow> Some opr),
           or_value = join_str ''.'' (drop 1 rest)\<rparr>)"

definition parseOrCondition :: "string \<Rightarrow> or_part list" where
  "parseOrCondition cond = map parseOrPart (split_str CHR '','' cond)"

text \<open>
  The \<open>in\<close> case: \<open>f.value\<close> is used as an array without a check. The result is the
  condition pushed and the parameters pushed.
\<close>

fun whereIn :: "string option \<Rightarrow> string option \<Rightarrow> jsval \<Rightarrow> js_error + (string \<times> jsval list)" where
  "whereIn tbl col (JArr vals) =
     (if length vals = 0 then Inr (''1 = 0'', [])
      else andThen (mapM (coerceFilterValue tbl col) vals) (\<lambda>ps.
             Inr (quoted (tmpl col) @ '' IN ('' @ join_str '', '' (map (\<lambda>v. ''?'') vals) @ '')'', ps)))"
| "whereIn tbl col JUndefined = Inl (JsError ''Cannot read properties of undefined'')"
| "whereIn tbl col JNull = Inl (JsError ''Cannot read properties of null'')"
| "whereIn tbl col (JStr s) =
     (if length s = 0 then Inr (''1 = 0'', []) else Inl (JsError ''values.map is not a function''))"
| "whereIn tbl col (JObj kvs) =
     (if obj_get kvs ''length'' = JNum 0 then Inr (''1 = 0'', [])
      else Inl (JsError ''values.map is not a function''))"
| "whereIn tbl col (JBool b) = Inl (JsError ''values.map is not a function'')"
| "whereIn tbl col (JNum n) = Inl (JsError ''values.map is not a function'')"

text \<open>One turn of the loop of \<open>buildWhere\<close> over the filters, on \<open>(conditions, params)\<close>.\<close>

definition whereStep ::
  "string option \<Rightarrow> Filter \<Rightarrow> string list \<times> jsval list \<Rightarrow> js_error + (string list \<times> jsval list)" where
  "whereStep tbl f acc =
     (case acc of (conditions, params) \<Rightarrow>
       if ftype f = ''eq'' then
         andThen (coerceFilterValue tbl (column f) (fvalue f)) (\<lambda>v.
           Inr (conditions @ [quoted (tmpl (column f)) @ '' = ?''], params @ [v]))
       else if ftype f = ''in'' then
         andThen (whereIn tbl (column f) (fvalue f)) (\<lambda>(c, ps).
           Inr (conditions @ [c], params @ ps))
       else if ftype f = ''is'' then
         (if fvalue f = JNull
          then Inr (conditions @ [quoted (tmpl (column f)) @ '' IS NULL''], params)
          else Inr (conditions, params))
       else if ftype f = ''ilike'' then
         Inr (conditions @ [''LOWER('' @ quoted (tmpl (column f)) @ '') LIKE LOWER(?)''],
              params @ [fvalue f])
       else if ftype f = ''not'' then
         (if operator f = Some ''is'' \<and> fvalue f = JNull
          then Inr (conditions @ [quoted (tmpl (column f)) @ '' IS NOT NULL''], params)
          else andThen (coerceFilterValue tbl (column f) (fvalue f)) (\<lambda>v.
                 Inr (conditions @ [quoted (tmpl (column f)) @ '' != ?''], params @ [v])))
       else if ftype f = ''or'' then
         (let orParts = parseOrCondition (case condition f of None \<Rightarrow> [] | Some c \<Rightarrow> c) in
          if length orParts > 0
          then Inr (conditions @
                      [''('' @ join_str '' OR ''
                          (map (\<lambda>part. quoted (or_column part) @ '' '' @ or_op part @ '' ?'') orParts)
                        @ '')''],
                    params @ map (\<lambda>part. JStr (or_value part)) orParts)
          else Inr (conditions, params))
       else Inr (conditions, params))"

fun whereLoop ::
  "string option \<Rightarrow> Filter list \<Rightarrow> string list \<times> jsval list \<Rightarrow> js_error + (string list \<times> jsval list)" where
  "whereLoop tbl [] acc = Inr acc"
| "whereLoop tbl (f # fs) acc = andThen (whereStep tbl f acc) (whereLoop tbl fs)"

definition buildWhere :: "Filter list \<Rightarrow> string option \<Rightarrow> js_error + (string \<times> jsval list)" where
  "buildWhere fs tbl =
     andThen (whereLoop tbl fs ([], [])) (\<lambda>(conditions, params).
       Inr (if length conditions > 0 then ''WHERE '' @ join_str '' AND '' conditions else [],
            params))"

section \<open>query-builder.ts: the query executor\<close>

text \<open>
  The sql.js database is a collaborator. A prepared and bound statement is the sequence
  of rows its \<open>step\<close>/\<open>getAsObject\<close> calls yield, ended either by \<open>step\<close> returning
  false (\<open>c_fail = None\<close>) or by \<open>step\<close> throwing. \<open>prepare_bind\<close> is \<open>db.prepare(sql)\<close>
  followed by \<open>stmt.bind(params)\<close>; \<open>run\<close> is \<open>db.run(sql, params)\<close>, which returns the
  changed database or throws and leaves it as it was. The error mapper
  (\<open>notFoundError\<close>, \<open>sqliteError\<close>), the random UUID source and the clock are
  collaborators too: \<open>generateUUID W i\<close> and \<open>nowISO W i\<close> are what \<open>generateUUID()\<close>
  and \<open>new Date().toISOString()\<close> return in turn \<open>i\<close> of a loop.
\<close>

record cursor =
  c_rows :: "obj list"
  c_fail :: "js_error option"

record 'db world =
  prepare_bind :: "'db \<Rightarrow> string \<Rightarrow> jsval list \<Rightarrow> js_error + cursor"
  run :: "'db \<Rightarrow> string \<Rightarrow> jsval list \<Rightarrow> js_error + 'db"
  json :: json_lib
  notFoundError :: qerror
  sqliteError :: "js_error \<Rightarrow> qerror"
  generateUUID :: "nat \<Rightarrow> string"
  nowISO :: "nat \<Rightarrow> string"

text \<open>A step that may throw, inside a function that also returns the database.\<close>

definition orThrow :: "'e + 'a \<Rightarrow> 'db \<Rightarrow> ('a \<Rightarrow> ('e + 'b) \<times> 'db) \<Rightarrow> ('e + 'b) \<times> 'db" where
  "orThrow m db f = (case m of Inl e \<Rightarrow> (Inl e, db) | Inr x \<Rightarrow> f x)"

text \<open>\<open>while (stmt.step()) rows.push(coerceRowFromSqlite(table, stmt.getAsObject()))\<close>\<close>

fun stepAll :: "json_lib \<Rightarrow> string \<Rightarrow> obj list \<Rightarrow> js_error option \<Rightarrow> js_error + obj list" where
  "stepAll J t [] None = Inr []"
| "stepAll J t [] (Some e) = Inl e"
| "stepAll J t (r # rs) fail =
     andThen (coerceRowFromSqlite J t r) (\<lambda>row.
       andThen (stepAll J t rs fail) (\<lambda>rows. Inr (row # rows)))"

definition selectColumns :: "string option \<Rightarrow> string" where
  "selectColumns cols = (case cols of None \<Rightarrow> ''*'' | Some c \<Rightarrow> if c = [] then ''*'' else c)"

definition orderClause :: "order_by list option \<Rightarrow> string" where
  "orderClause ord =
     (case ord of
        None \<Rightarrow> []
      | Some os \<Rightarrow>
          if length os > 0
          then '' ORDER BY '' @
               join_str '', ''
                 (map (\<lambda>ob. quoted (o_column ob) @ '' '' @ (if ascending ob then ''ASC'' else ''DESC'')) os)
          else [])"

definition limitClause :: "int option \<Rightarrow> string" where
  "limitClause lim =
     (case lim of
        None \<Rightarrow> []
      | Some n \<Rightarrow> if n \<noteq> 0 then '' LIMIT '' @ show_int n else [])"

text \<open>The statement text \<open>executeSelect\<close> builds, given the clause of \<open>buildWhere\<close>.\<close>

definition selectSql :: "QueryPayload \<Rightarrow> string \<Rightarrow> string" where
  "selectSql p clause =
     ''SELECT '' @ selectColumns (columns p) @ '' FROM '' @ quoted (table p) @ '' '' @ clause
       @ orderClause (ordering p) @ limitClause (limit p)"

text \<open>\<open>executeSelect\<close> up to \<open>stmt.free()\<close>: the coerced rows read.\<close>

definition selectRows :: "'db world \<Rightarrow> 'db \<Rightarrow> QueryPayload \<Rightarrow> js_error + obj list" where
  "selectRows W db p =
     andThen (buildWhere (filters p) (Some (table p))) (\<lambda>(clause, params).
       andThen (prepare_bind W db (selectSql p clause) params) (\<lambda>cur.
         stepAll (json W) (table p) (c_rows cur) (c_fail cur)))"

definition executeSelect :: "'db world \<Rightarrow> 'db \<Rightarrow> QueryPayload \<Rightarrow> js_error + QueryResult" where
  "executeSelect W db p =
     andThen (selectRows W db p) (\<lambda>rows.
       if single p then
         (case rows of
            [] \<Rightarrow> Inr \<lparr>data = JNull, error = Some (notFoundError W)\<rparr>
          | r # rs \<Rightarrow> Inr \<lparr>data = JObj r, error = None\<rparr>)
       else if maybeSingle p then
         Inr \<lparr>data = (case rows of [] \<Rightarrow> JNull | r # rs \<Rightarrow> JObj r), error = None\<rparr>
       else Inr \<lparr>data = JArr (map JObj rows), error = None\<rparr>)"

text \<open>\<open>payload.columns\<close> as a condition: a projection was requested.\<close>

definition wantsRows :: "QueryPayload \<Rightarrow> bool" where
  "wantsRows p = (case columns p of None \<Rightarrow> False | Some c \<Rightarrow> c \<noteq> [])"

text \<open>
  The body of the loop of \<open>executeInsert\<close> up to the timestamps: the object
  \<open>coerced\<close>, from the record supplied, the UUID on offer and the time read. Its own
  entries are the \<open>Object.keys\<close> and \<open>Object.values\<close> of the INSERT statement.
\<close>

definition insertData ::
  "json_lib \<Rightarrow> string \<Rightarrow> obj \<Rightarrow> string \<Rightarrow> string \<Rightarrow> js_error + js_object" where
  "insertData J t rec uuid now =
     andThen (coerceDataToSqlite J t rec) (\<lambda>assigned.
       let c0 = object_of assigned;
           c1 = (if \<not> truthy (obj_read c0 ''id'') then obj_write ''id'' (JStr uuid) c0 else c0);
           c2 = (if \<not> truthy (obj_read c1 ''created_at'')
                 then obj_write ''created_at'' (JStr now) c1 else c1);
           c3 = (if t \<in> set TABLES_WITH_UPDATED_AT \<and> \<not> truthy (obj_read c2 ''updated_at'')
                 then obj_write ''updated_at'' (JStr now) c2 else c2)
       in Inr c3)"

definition insertSql :: "string \<Rightarrow> obj \<Rightarrow> string" where
  "insertSql t coerced =
     ''INSERT INTO '' @ quoted t @ '' ('' @ join_str '', '' (map (\<lambda>c. quoted c) (map fst coerced))
       @ '') VALUES ('' @ join_str '', '' (map (\<lambda>c. ''?'') (map fst coerced)) @ '')''"

fun insertLoop ::
  "'db world \<Rightarrow> QueryPayload \<Rightarrow> nat \<Rightarrow> obj list \<Rightarrow> 'db \<Rightarrow> obj list \<Rightarrow> (js_error + obj list) \<times> 'db" where
  "insertLoop W p i [] db insertedRows = (Inr insertedRows, db)"
| "insertLoop W p i (rec # recs) db insertedRows =
     orThrow (insertData (json W) (table p) rec (generateUUID W i) (nowISO W i)) db (\<lambda>coerced.
       orThrow (run W db (insertSql (table p) (own coerced)) (map snd (own coerced))) db (\<lambda>db'.
         if wantsRows p then
           orThrow (prepare_bind W db'
                      (''SELECT '' @ selectColumns (columns p) @ '' FROM '' @ quoted (table p)
                         @ '' WHERE id = ?'')
                      [obj_read coerced ''id'']) db' (\<lambda>cur.
             case c_rows cur of
               [] \<Rightarrow> (case c_fail cur of
                        Some e \<Rightarrow> (Inl e, db')
                      | None \<Rightarrow> insertLoop W p (Suc i) recs db' insertedRows)
             | row # others \<Rightarrow>
                 orThrow (coerceRowFromSqlite (json W) (table p) row) db' (\<lambda>r.
                   insertLoop W p (Suc i) recs db' (insertedRows @ [r])))
         else insertLoop W p (Suc i) recs db' insertedRows))"

definition executeInsert :: "'db world \<Rightarrow> 'db \<Rightarrow> QueryPayload \<Rightarrow> (js_error + QueryResult) \<times> 'db" where
  "executeInsert W db p =
     (let records = (case body p of Many rs \<Rightarrow> rs | One r \<Rightarrow> [r] | NoBody \<Rightarrow> [[]]) in
      case insertLoop W p 0 records db [] of
        (Inl e, db') \<Rightarrow> (Inl e, db')
      | (Inr insertedRows, db') \<Rightarrow>
          (case insertedRows of
             r # rs \<Rightarrow>
               if single p then (Inr \<lparr>data = JObj r, error = None\<rparr>, db')
               else (Inr \<lparr>data = (if wantsRows p then JArr (map JObj insertedRows) else JNull),
                          error = None\<rparr>, db')
           | [] \<Rightarrow> (Inr \<lparr>data = (if wantsRows p then JArr [] else JNull), error = None\<rparr>, db')))"

text \<open>
  \<open>executeUpdate\<close> up to the timestamp: the record whose keys and values become the SET
  clause, for a body without the key \<open>__proto__\<close> (the assignments are then the entries).
  \<open>payload.body[0]\<close> of an empty array is \<open>undefined\<close>, on which
  \<open>Object.entries\<close> throws.
\<close>

definition updateData :: "json_lib \<Rightarrow> string \<Rightarrow> body \<Rightarrow> string \<Rightarrow> js_error + obj" where
  "updateData J t b now =
     andThen
       (case b of
          NoBody \<Rightarrow> coerceDataToSqlite J t []
        | One r \<Rightarrow> coerceDataToSqlite J t r
        | Many [] \<Rightarrow> Inl (JsError ''Cannot convert undefined or null to object'')
        | Many (r # rs) \<Rightarrow> coerceDataToSqlite J t r)
       (\<lambda>d. Inr (if t \<in> set TABLES_WITH_UPDATED_AT
                 then obj_set ''updated_at'' (JStr now) d else d))"

definition updateSql :: "string \<Rightarrow> obj \<Rightarrow> string \<Rightarrow> string" where
  "updateSql t d clause =
     ''UPDATE '' @ quoted t @ '' SET '' @ join_str '', '' (map (\<lambda>k. quoted k @ '' = ?'') (map fst d))
       @ '' '' @ clause"

definition executeUpdate :: "'db world \<Rightarrow> 'db \<Rightarrow> QueryPayload \<Rightarrow> (js_error + QueryResult) \<times> 'db" where
  "executeUpdate W db p =
     orThrow (updateData (json W) (table p) (body p) (nowISO W 0)) db (\<lambda>d.
       orThrow (buildWhere (filters p) (Some (table p))) db (\<lambda>(clause, params).
         orThrow (run W db (updateSql (table p) d clause) (map snd d @ params)) db (\<lambda>db'.
           if wantsRows p then
             orThrow (prepare_bind W db'
                        (''SELECT '' @ selectColumns (columns p) @ '' FROM '' @ quoted (table p)
                           @ '' '' @ clause)
                        params) db' (\<lambda>cur.
               orThrow (stepAll (json W) (table p) (c_rows cur) (c_fail cur)) db' (\<lambda>rows.
                 if single p
                 then (Inr \<lparr>data = (case rows of [] \<Rightarrow> JNull | r # rs \<Rightarrow> JObj r), error = None\<rparr>, db')
                 else (Inr \<lparr>data = JArr (map JObj rows), error = None\<rparr>, db')))
           else (Inr \<lparr>data = JNull, error = None\<rparr>, db'))))"

definition executeDelete :: "'db world \<Rightarrow> 'db \<Rightarrow> QueryPayload \<Rightarrow> (js_error + QueryResult) \<times> 'db" where
  "executeDelete W db p =
     orThrow (buildWhere (filters p) (Some (table p))) db (\<lambda>(clause, params).
       orThrow (run W db (''DELETE FROM '' @ quoted (table p) @ '' '' @ clause) params) db (\<lambda>db'.
         (Inr \<lparr>data = JNull, error = None\<rparr>, db')))"

text \<open>The \<open>try\<close> block of \<open>executeQuery\<close>: what it returns or throws.\<close>

definition dispatch :: "'db world \<Rightarrow> 'db \<Rightarrow> QueryPayload \<Rightarrow> (js_error + QueryResult) \<times> 'db" where
  "dispatch W db p =
     (if qmethod p = ''select'' then (executeSelect W db p, db)
      else if qmethod p = ''insert'' then executeInsert W db p
      else if qmethod p = ''update'' then executeUpdate W db p
      else if qmethod p = ''delete'' then executeDelete W db p
      else (Inr \<lparr>data = JNull,
                 error = Some \<lparr>message = ''Unknown method: '' @ qmethod p, code = None\<rparr>\<rparr>, db))"

text \<open>\<open>err instanceof Error ? err.message : ''\<close>\<close>

fun error_message :: "js_error \<Rightarrow> string" where
  "error_message (JsError m) = m"
| "error_message (Thrown v) = []"

text \<open>
  \<open>executeQuery\<close>: the \<open>try\<close> block and its \<open>catch\<close>. The result is again an outcome
  (\<open>Inl\<close>: an exception leaves \<open>executeQuery\<close>), paired with the database.
\<close>

definition executeQuery :: "'db world \<Rightarrow> 'db \<Rightarrow> QueryPayload \<Rightarrow> (js_error + QueryResult) \<times> 'db" where
  "executeQuery W db p =
     (case dispatch W db p of
        (Inr res, db') \<Rightarrow> (Inr res, db')
      | (Inl err, db') \<Rightarrow>
          (let msg = error_message err in
           if str_includes msg ''UNIQUE constraint failed''
           then (Inr \<lparr>data = JNull, error = Some \<lparr>message = msg, code = Some ''23505''\<rparr>\<rparr>, db')
           else (Inr \<lparr>data = JNull, error = Some (sqliteError W err)\<rparr>, db')))"

section \<open>rpc-handlers.ts\<close>

text \<open>
  The two relations \<open>isPersonInSubtree\<close> reads, rows in the order the engine scans them.
  A family has at most one father and one mother (NULL is \<open>None\<close>, and no \<open>=\<close>
  comparison against NULL matches). The engine holds both tables, so neither statement
  fails to prepare or to step.
\<close>

record family =
  fam_id :: string
  father_id :: "string option"
  mother_id :: "string option"

record child =
  family_id :: string
  person_id :: string

record family_db =
  families :: "family list"
  children :: "child list"

text \<open>What the traversal asks of the engine, in order.\<close>

datatype db_call = Prepare string | BindFamily string | BindChild string

text \<open>\<open>SELECT id FROM families WHERE father_id = ? OR mother_id = ?\<close>, bound to a person.\<close>

definition familyStmt :: "family_db \<Rightarrow> string \<Rightarrow> string list" where
  "familyStmt db p =
     map fam_id (filter (\<lambda>f. father_id f = Some p \<or> mother_id f = Some p) (families db))"

text \<open>\<open>SELECT person_id FROM children WHERE family_id = ?\<close>, bound to a family.\<close>

definition childStmt :: "family_db \<Rightarrow> string \<Rightarrow> string list" where
  "childStmt db fid = map person_id (filter (\<lambda>c. family_id c = fid) (children db))"

text \<open>
  \<open>while (childStmt.step())\<close> over the children of one family: \<open>None\<close> is the
  \<open>return true\<close> in the loop, \<open>Some\<close> the queue after it.
\<close>

fun scanChildren :: "string \<Rightarrow> string set \<Rightarrow> string list \<Rightarrow> string list \<Rightarrow> string list option" where
  "scanChildren targetId visited [] queue = Some queue"
| "scanChildren targetId visited (childId # rest) queue =
     (if childId = targetId then None
      else scanChildren targetId visited rest
             (if childId \<notin> visited then queue @ [childId] else queue))"

text \<open>\<open>for (const familyId of familyIds)\<close>\<close>

fun scanFamilies ::
  "family_db \<Rightarrow> string \<Rightarrow> string set \<Rightarrow> string list \<Rightarrow> string list \<Rightarrow> db_call list
     \<Rightarrow> string list option \<times> db_call list" where
  "scanFamilies db targetId visited [] queue log = (Some queue, log)"
| "scanFamilies db targetId visited (familyId # rest) queue log =
     (case scanChildren targetId visited (childStmt db familyId) queue of
        None \<Rightarrow> (None, log @ [BindChild familyId])
      | Some queue' \<Rightarrow> scanFamilies db targetId visited rest queue' (log @ [BindChild familyId]))"

definition person_ids :: "family_db \<Rightarrow> string set" where
  "person_ids db = set (map person_id (children db))"

lemma scanChildren_subset:
  "scanChildren t V cs q = Some q' \<Longrightarrow> set q' \<subseteq> set q \<union> set cs"
  by (induction cs arbitrary: q) (fastforce split: if_splits)+

lemma childStmt_subset: "set (childStmt db fid) \<subseteq> person_ids db"
  by (auto simp: childStmt_def person_ids_def)

lemma scanFamilies_subset:
  "scanFamilies db t V fs q lg = (Some q', lg') \<Longrightarrow> set q' \<subseteq> set q \<union> person_ids db"
proof (induction fs arbitrary: q lg)
  case Nil
  then show ?case by simp
next
  case (Cons f fs)
  from Cons.prems obtain q1 where
    q1: "scanChildren t V (childStmt db f) q = Some q1" and
    rest: "scanFamilies db t V fs q1 (lg @ [BindChild f]) = (Some q', lg')"
    by (auto split: option.splits)
  from scanChildren_subset [OF q1] childStmt_subset [of db f]
  have "set q1 \<subseteq> set q \<union> person_ids db" by blast
  with Cons.IH [OF rest] show ?case by blast
qed

text \<open>
  The \<open>while (queue.length > 0)\<close> loop: \<open>queue.shift()\<close>, the visited test, the family
  query and the scan of each family's children.
\<close>

function bfs ::
  "family_db \<Rightarrow> string \<Rightarrow> string set \<Rightarrow> string list \<Rightarrow> db_call list \<Rightarrow> bool \<times> db_call list" where
  "bfs db targetId visited [] log = (False, log)"
| "bfs db targetId visited (currentId # queue) log =
     (if currentId \<in> visited then bfs db targetId visited queue log
      else (case scanFamilies db targetId (insert currentId visited) (familyStmt db currentId)
                   queue (log @ [BindFamily currentId]) of
              (None, log') \<Rightarrow> (True, log')
            | (Some queue', log') \<Rightarrow> bfs db targetId (insert currentId visited) queue' log'))"
  by pat_completeness auto

termination bfs
proof (relation "measures [\<lambda>(db, t, V, Q, lg). card ((person_ids db \<union> set Q) - V),
                           \<lambda>(db, t, V, Q, lg). length Q]")
  show "wf (measures [\<lambda>(db, t, V, Q, lg). card ((person_ids db \<union> set Q) - V),
                      \<lambda>(db, t, V, Q, lg). length Q])"
    by simp
next
  fix db :: family_db and targetId currentId :: string and visited :: "string set"
    and queue :: "string list" and log :: "db_call list"
  assume "currentId \<in> visited"
  then have "(person_ids db \<union> set (currentId # queue)) - visited
             = (person_ids db \<union> set queue) - visited"
    by auto
  then show "((db, targetId, visited, queue, log), (db, targetId, visited, currentId # queue, log))
        \<in> measures [\<lambda>(db, t, V, Q, lg). card ((person_ids db \<union> set Q) - V),
                     \<lambda>(db, t, V, Q, lg). length Q]"
    by simp
next
  fix db :: family_db and targetId currentId :: string and visited :: "string set"
    and queue queue' :: "string list" and log log' :: "db_call list"
    and found :: "string list option"
  assume fresh: "currentId \<notin> visited"
    and scan: "(found, log') =
                 scanFamilies db targetId (insert currentId visited) (familyStmt db currentId)
                   queue (log @ [BindFamily currentId])"
    and found: "found = Some queue'"
  from scan found have
    "scanFamilies db targetId (insert currentId visited) (familyStmt db currentId)
       queue (log @ [BindFamily currentId]) = (Some queue', log')"
    by simp
  from scanFamilies_subset [OF this]
  have sub: "set queue' \<subseteq> set queue \<union> person_ids db" .
  have fin: "finite ((person_ids db \<union> set (currentId # queue)) - visited)"
    by (simp add: person_ids_def)
  have "(person_ids db \<union> set queue') - insert currentId visited
        \<subset> (person_ids db \<union> set (currentId # queue)) - visited"
    using sub fresh by auto
  from psubset_card_mono [OF fin this]
  show "((db, targetId, insert currentId visited, queue', log'),
         (db, targetId, visited, currentId # queue, log))
        \<in> measures [\<lambda>(db, t, V, Q, lg). card ((person_ids db \<union> set Q) - V),
                     \<lambda>(db, t, V, Q, lg). length Q]"
    by simp
qed

text \<open>
  \<open>isPersonInSubtree\<close>, with the calls it made on the engine. The \<open>finally\<close> block frees
  the two statements on every way out and changes no result.
\<close>

definition isPersonInSubtree :: "family_db \<Rightarrow> string \<Rightarrow> string \<Rightarrow> bool \<times> db_call list" where
  "isPersonInSubtree db rootId targetId =
     (if rootId = targetId then (True, [])
      else bfs db targetId {} [rootId]
             [Prepare ''SELECT id FROM families WHERE father_id = ? OR mother_id = ?'',
              Prepare ''SELECT person_id FROM children WHERE family_id = ?''])"

section \<open>Vocabulary of the properties\<close>

text \<open>
  The descendant step of the family graph: \<open>p\<close> is the father or the mother of a
  family record and \<open>c\<close> is listed as a child of that family.
\<close>

definition parent_child :: "family_db \<Rightarrow> (string \<times> string) set" where
  "parent_child db =
     {(p, c). \<exists>f \<in> set (families db). (father_id f = Some p \<or> mother_id f = Some p) \<and>
                (\<exists>ch \<in> set (children db). family_id ch = fam_id f \<and> person_id ch = c)}"

text \<open>The persons expanded by a traversal: those the family statement was bound to.\<close>

fun expanded :: "db_call list \<Rightarrow> string list" where
  "expanded [] = []"
| "expanded (BindFamily p # cs) = p # expanded cs"
| "expanded (c # cs) = expanded cs"

text \<open>The two statements a traversal prepares before its loop.\<close>

definition prepared :: "db_call list" where
  "prepared = [Prepare ''SELECT id FROM families WHERE father_id = ? OR mother_id = ?'',
               Prepare ''SELECT person_id FROM children WHERE family_id = ?'']"




section \<open>Example data\<close>

text \<open>Families F1 (father P1, children P2 and P3) and F2 (father P2, child P4).\<close>

definition two_families :: family_db where
  "two_families =
     \<lparr>families = [\<lparr>fam_id = ''F1'', father_id = Some ''P1'', mother_id = None\<rparr>,
                  \<lparr>fam_id = ''F2'', father_id = Some ''P2'', mother_id = None\<rparr>],
      children = [\<lparr>family_id = ''F1'', person_id = ''P2''\<rparr>,
                  \<lparr>family_id = ''F1'', person_id = ''P3''\<rparr>,
                  \<lparr>family_id = ''F2'', person_id = ''P4''\<rparr>]\<rparr>"

text \<open>
  A cycle: P2 is a child of P1's family and P1 a child of P2's family; P3 is listed as a
  child of both families.
\<close>

definition cyclic_families :: family_db where
  "cyclic_families =
     \<lparr>families = [\<lparr>fam_id = ''F1'', father_id = Some ''P1'', mother_id = None\<rparr>,
                  \<lparr>fam_id = ''F2'', father_id = None, mother_id = Some ''P2''\<rparr>],
      children = [\<lparr>family_id = ''F1'', person_id = ''P2''\<rparr>,
                  \<lparr>family_id = ''F1'', person_id = ''P3''\<rparr>,
                  \<lparr>family_id = ''F2'', person_id = ''P1''\<rparr>,
                  \<lparr>family_id = ''F2'', person_id = ''P3''\<rparr>]\<rparr>"

text \<open>
  An engine that holds the rows of one table and answers every statement with them, and
  an engine whose every \<open>run\<close> fails on a uniqueness constraint; an error mapper; a UUID
  source and a clock that number their calls.
\<close>

definition echo_world :: "obj list world" where
  "echo_world =
     \<lparr>prepare_bind = (\<lambda>db sql params. Inr \<lparr>c_rows = db, c_fail = None\<rparr>),
      run = (\<lambda>db sql params. Inr db),
      json = no_json,
      notFoundError = \<lparr>message = ''Row not found'', code = Some ''PGRST116''\<rparr>,
      sqliteError = (\<lambda>e. \<lparr>message = error_message e, code = None\<rparr>),
      generateUUID = (\<lambda>i. ''uuid-'' @ show_nat i),
      nowISO = (\<lambda>i. ''2026-02-26T00:00:0'' @ show_nat i @ ''.000Z'')\<rparr>"

definition unique_violation_world :: "obj list world" where
  "unique_violation_world =
     echo_world\<lparr>run := (\<lambda>db sql params. Inl (JsError ''UNIQUE constraint failed: people.id''))\<rparr>"

text \<open>A read of every row of \<open>people\<close>, without modifiers.\<close>

definition people_query :: QueryPayload where
  "people_query =
     \<lparr>table = ''people'', qmethod = ''select'', columns = None, body = NoBody, filters = [],
      ordering = None, limit = None, single = False, maybeSingle = False\<rparr>"

text \<open>A set-membership filter on the column \<open>id\<close>.\<close>

definition id_in :: "jsval list \<Rightarrow> Filter" where
  "id_in vals =
     \<lparr>ftype = ''in'', column = Some ''id'', fvalue = JArr vals, operator = None, condition = None\<rparr>"

text \<open>An insert of one person, with no identifier and no timestamp.\<close>

definition people_insert :: QueryPayload where
  "people_insert =
     \<lparr>table = ''people'', qmethod = ''insert'', columns = None,
      body = One [(''display_name'', JStr ''An''), (''is_living'', JBool True)], filters = [],
      ordering = None, limit = None, single = False, maybeSingle = False\<rparr>"

text \<open>An update of \<open>people\<close> whose body supplies a modification timestamp.\<close>

definition people_update :: QueryPayload where
  "people_update =
     \<lparr>table = ''people'', qmethod = ''update'', columns = None,
      body = One [(''display_name'', JStr ''Binh''), (''updated_at'', JStr ''1999-01-01'')],
      filters = [], ordering = None, limit = None, single = False, maybeSingle = False\<rparr>"

text \<open>A disjunction filter with the given condition string.\<close>

definition or_filter :: "string \<Rightarrow> Filter" where
  "or_filter cond =
     \<lparr>ftype = ''or'', column = None, fvalue = JUndefined, operator = None, condition = Some cond\<rparr>"




section \<open>Properties of the type coercion layer\<close>

lemma isBooleanColumn_cases:
  assumes "isBooleanColumn t c = Inr True"
  obtains cs where "BOOLEAN_COLUMNS t = ColumnSet cs" and "c \<in> set cs"
  using assms unfolding isBooleanColumn_def
  by (cases "BOOLEAN_COLUMNS t") auto

lemma isBooleanColumn_table:
  assumes "isBooleanColumn t c = Inr True"
  shows "JSON_COLUMNS t = NoEntry"
proof -
  have "t \<in> {''people'', ''events'', ''media'', ''achievements'', ''clan_articles'',
              ''cau_duong_pools''}"
    using assms unfolding isBooleanColumn_def BOOLEAN_COLUMNS_def
    by (auto split: if_splits)
  then show ?thesis
    unfolding JSON_COLUMNS_def object_prototype_names_def by auto
qed

lemma rowFromSqlite_total:
  "\<exists>r. rowFromSqlite J (ColumnSet cs) NoEntry row = Inr r"
  by (induction row) (auto simp: andThen_def)

lemma dataToSqlite_total:
  "\<exists>r. dataToSqlite J (ColumnSet cs) NoEntry dat = Inr r"
  by (induction dat) (auto simp: andThen_def)

lemma rowFromSqlite_lookup:
  assumes "rowFromSqlite J (ColumnSet cs) NoEntry row = Inr r" and "c \<in> set cs"
  shows "map_of r c =
         map_option (\<lambda>v. JBool (v = JNum 1 \<or> v = JBool True)) (map_of row c)"
  using assms
proof (induction row arbitrary: r)
  case Nil
  then show ?case by simp
next
  case (Cons kv row)
  obtain k v where kv: "kv = (k, v)" by (cases kv)
  obtain r' where r': "rowFromSqlite J (ColumnSet cs) NoEntry row = Inr r'"
    using rowFromSqlite_total by blast
  from Cons.prems(1) kv r' have
    "r = (k, if k \<in> set cs then JBool (v = JNum 1 \<or> v = JBool True) else v) # r'"
    by (auto simp: andThen_def)
  with Cons.IH [OF r' Cons.prems(2)] kv Cons.prems(2) show ?case by auto
qed

lemma dataToSqlite_lookup:
  assumes "dataToSqlite J (ColumnSet cs) NoEntry dat = Inr r" and "c \<in> set cs"
  shows "map_of r c = map_option (\<lambda>v. JNum (if truthy v then 1 else 0)) (map_of dat c)"
  using assms
proof (induction dat arbitrary: r)
  case Nil
  then show ?case by simp
next
  case (Cons kv dat)
  obtain k v where kv: "kv = (k, v)" by (cases kv)
  obtain r' where r': "dataToSqlite J (ColumnSet cs) NoEntry dat = Inr r'"
    using dataToSqlite_total by blast
  from Cons.prems(1) kv r' have
    "r = (k, if k \<in> set cs then JNum (if truthy v then 1 else 0) else v) # r'"
    by (auto simp: andThen_def)
  with Cons.IH [OF r' Cons.prems(2)] kv Cons.prems(2) show ?case by auto
qed

text \<open>
  Claim C1, as the code has it. For a column \<open>c\<close> declared boolean for table \<open>t\<close>,
  both coercions return (no exception). A stored cell \<open>v\<close> comes back from
  \<open>coerceDataToSqlite\<close> after \<open>coerceRowFromSqlite\<close> as the integer 1 when \<open>v\<close> is the
  integer 1 or \<open>true\<close> and as the integer 0 otherwise, so the cell is unchanged exactly
  when it holds the integer 0 or 1. In the other direction a supplied value \<open>v\<close> comes
  back from \<open>coerceRowFromSqlite\<close> after \<open>coerceDataToSqlite\<close> as the boolean
  \<open>truthy v\<close>, which is \<open>b\<close> itself when \<open>v\<close> is the boolean \<open>b\<close>.
\<close>

theorem boolean_column_round_trips:
  assumes "isBooleanColumn t c = Inr True"
  shows "(\<exists>logical stored.
           coerceRowFromSqlite J t row = Inr logical \<and>
           coerceDataToSqlite J t logical = Inr stored \<and>
           map_of stored c =
             map_option (\<lambda>v. JNum (if v = JNum 1 \<or> v = JBool True then 1 else 0)) (map_of row c) \<and>
           (\<forall>v. map_of row c = Some v \<longrightarrow>
              (map_of stored c = map_of row c \<longleftrightarrow> v = JNum 0 \<or> v = JNum 1))) \<and>
         (\<exists>stored logical.
           coerceDataToSqlite J t dat = Inr stored \<and>
           coerceRowFromSqlite J t stored = Inr logical \<and>
           map_of logical c = map_option (\<lambda>v. JBool (truthy v)) (map_of dat c) \<and>
           (\<forall>b. map_of dat c = Some (JBool b) \<longrightarrow> map_of logical c = Some (JBool b)))"
proof -
  from assms obtain cs where cs: "BOOLEAN_COLUMNS t = ColumnSet cs" "c \<in> set cs"
    by (rule isBooleanColumn_cases)
  have js: "JSON_COLUMNS t = NoEntry"
    using assms by (rule isBooleanColumn_table)
  obtain l1 where l1: "rowFromSqlite J (ColumnSet cs) NoEntry row = Inr l1"
    using rowFromSqlite_total by blast
  obtain s1 where s1: "dataToSqlite J (ColumnSet cs) NoEntry l1 = Inr s1"
    using dataToSqlite_total by blast
  have a: "map_of s1 c =
      map_option (\<lambda>v. JNum (if v = JNum 1 \<or> v = JBool True then 1 else 0)) (map_of row c)"
    using dataToSqlite_lookup [OF s1 cs(2)] rowFromSqlite_lookup [OF l1 cs(2)]
    by (cases "map_of row c") auto
  have b: "\<forall>v. map_of row c = Some v \<longrightarrow>
      (map_of s1 c = map_of row c \<longleftrightarrow> v = JNum 0 \<or> v = JNum 1)"
    using a by auto
  have first: "\<exists>logical stored.
           coerceRowFromSqlite J t row = Inr logical \<and>
           coerceDataToSqlite J t logical = Inr stored \<and>
           map_of stored c =
             map_option (\<lambda>v. JNum (if v = JNum 1 \<or> v = JBool True then 1 else 0)) (map_of row c) \<and>
           (\<forall>v. map_of row c = Some v \<longrightarrow>
              (map_of stored c = map_of row c \<longleftrightarrow> v = JNum 0 \<or> v = JNum 1))"
    unfolding coerceRowFromSqlite_def coerceDataToSqlite_def cs js
    using l1 s1 a b by blast
  obtain s2 where s2: "dataToSqlite J (ColumnSet cs) NoEntry dat = Inr s2"
    using dataToSqlite_total by blast
  obtain l2 where l2: "rowFromSqlite J (ColumnSet cs) NoEntry s2 = Inr l2"
    using rowFromSqlite_total by blast
  have c: "map_of l2 c = map_option (\<lambda>v. JBool (truthy v)) (map_of dat c)"
    using dataToSqlite_lookup [OF s2 cs(2)] rowFromSqlite_lookup [OF l2 cs(2)]
    by (cases "map_of dat c") auto
  have d: "\<forall>b. map_of dat c = Some (JBool b) \<longrightarrow> map_of l2 c = Some (JBool b)"
    using c by auto
  have second: "\<exists>stored logical.
           coerceDataToSqlite J t dat = Inr stored \<and>
           coerceRowFromSqlite J t stored = Inr logical \<and>
           map_of logical c = map_option (\<lambda>v. JBool (truthy v)) (map_of dat c) \<and>
           (\<forall>b. map_of dat c = Some (JBool b) \<longrightarrow> map_of logical c = Some (JBool b))"
    unfolding coerceRowFromSqlite_def coerceDataToSqlite_def cs js
    using s2 l2 c d by blast
  from first second show ?thesis by (rule conjI)
qed

theorem boolean_column_round_trips_witness:
  "isBooleanColumn ''people'' ''is_living'' = Inr True \<and>
   (\<exists>logical stored.
      coerceRowFromSqlite no_json ''people'' [(''id'', JStr ''p1''), (''is_living'', JNum 1)]
        = Inr logical \<and>
      coerceDataToSqlite no_json ''people'' logical = Inr stored \<and>
      map_of stored ''is_living'' = Some (JNum 1)) \<and>
   (\<exists>stored logical.
      coerceDataToSqlite no_json ''people'' [(''id'', JStr ''p1''), (''is_living'', JBool False)]
        = Inr stored \<and>
      coerceRowFromSqlite no_json ''people'' stored = Inr logical \<and>
      map_of logical ''is_living'' = Some (JBool False))"
proof -
  have h: "isBooleanColumn ''people'' ''is_living'' = Inr True"
    by (simp add: isBooleanColumn_def BOOLEAN_COLUMNS_def)
  show ?thesis
    using h
      boolean_column_round_trips [OF h, of no_json
        "[(''id'', JStr ''p1''), (''is_living'', JNum 1)]"
        "[(''id'', JStr ''p1''), (''is_living'', JBool False)]"]
    by auto
qed

text \<open>
  The first round trip is not the identity on every row: a NULL cell of the boolean
  column \<open>people.is_living\<close> reads as \<open>false\<close> and is written back as the integer 0.
\<close>

theorem boolean_round_trip_counterexample:
  "isBooleanColumn ''people'' ''is_living'' = Inr True \<and>
   andThen (coerceRowFromSqlite no_json ''people'' [(''is_living'', JNull)])
           (coerceDataToSqlite no_json ''people'') = Inr [(''is_living'', JNum 0)] \<and>
   map_of [(''is_living'', JNum 0)] ''is_living'' \<noteq> map_of [(''is_living'', JNull)] ''is_living''"
  by (simp add: isBooleanColumn_def coerceRowFromSqlite_def coerceDataToSqlite_def
      BOOLEAN_COLUMNS_def JSON_COLUMNS_def object_prototype_names_def andThen_def)

section \<open>Properties of the subtree traversal\<close>

lemma expanded_append: "expanded (xs @ ys) = expanded xs @ expanded ys"
  by (induction xs rule: expanded.induct) auto

lemma children_of_parent:
  "c \<in> set (concat (map (childStmt db) (familyStmt db p))) \<longleftrightarrow> (p, c) \<in> parent_child db"
  by (auto simp: childStmt_def familyStmt_def parent_child_def)

lemma parent_child_Image:
  "parent_child db `` {p} = set (concat (map (childStmt db) (familyStmt db p)))"
  using children_of_parent [of _ db p] by blast

lemma scanChildren_None: "scanChildren t V cs q = None \<longleftrightarrow> t \<in> set cs"
  by (induction cs arbitrary: q) auto

lemma scanChildren_Some:
  "scanChildren t V cs q = Some q' \<Longrightarrow> set q' = set q \<union> (set cs - V)"
  by (induction cs arbitrary: q) (auto split: if_splits)

lemma scanFamilies_None:
  "fst (scanFamilies db t V fs q lg) = None \<longleftrightarrow> t \<in> set (concat (map (childStmt db) fs))"
proof (induction fs arbitrary: q lg)
  case Nil
  then show ?case by simp
next
  case (Cons f fs)
  show ?case
  proof (cases "scanChildren t V (childStmt db f) q")
    case None
    then show ?thesis using scanChildren_None [of t V "childStmt db f" q] by simp
  next
    case (Some q1)
    then have "t \<notin> set (childStmt db f)"
      using scanChildren_None [of t V "childStmt db f" q] by simp
    with Some Cons.IH [of q1 "lg @ [BindChild f]"] show ?thesis by simp
  qed
qed

lemma scanFamilies_Some:
  "scanFamilies db t V fs q lg = (Some q', lg') \<Longrightarrow>
     set q' = set q \<union> (set (concat (map (childStmt db) fs)) - V)"
proof (induction fs arbitrary: q lg)
  case Nil
  then show ?case by simp
next
  case (Cons f fs)
  from Cons.prems obtain q1 where
    q1: "scanChildren t V (childStmt db f) q = Some q1" and
    rest: "scanFamilies db t V fs q1 (lg @ [BindChild f]) = (Some q', lg')"
    by (auto split: option.splits)
  from scanChildren_Some [OF q1] Cons.IH [OF rest] show ?case by auto
qed

lemma scanFamilies_expanded:
  "expanded (snd (scanFamilies db t V fs q lg)) = expanded lg"
  by (induction fs arbitrary: q lg) (auto simp: expanded_append split: option.splits)

text \<open>A true answer comes from a queued person with a chain to the target.\<close>

lemma bfs_sound:
  "fst (bfs db t V Q lg) \<Longrightarrow> \<exists>q \<in> set Q. (q, t) \<in> (parent_child db)\<^sup>+"
proof (induction db t V Q lg rule: bfs.induct)
  case (1 db t V lg)
  then show ?case by simp
next
  case (2 db t V cur Q lg)
  show ?case
  proof (cases "cur \<in> V")
    case True
    with 2 show ?thesis by auto
  next
    case False
    obtain found lg' where sf:
      "scanFamilies db t (insert cur V) (familyStmt db cur) Q (lg @ [BindFamily cur]) = (found, lg')"
      by (cases "scanFamilies db t (insert cur V) (familyStmt db cur) Q (lg @ [BindFamily cur])")
    show ?thesis
    proof (cases found)
      case None
      with sf have
        "fst (scanFamilies db t (insert cur V) (familyStmt db cur) Q (lg @ [BindFamily cur])) = None"
        by simp
      then have "t \<in> set (concat (map (childStmt db) (familyStmt db cur)))"
        by (simp only: scanFamilies_None)
      then have "(cur, t) \<in> parent_child db"
        by (simp only: children_of_parent)
      then show ?thesis by auto
    next
      case (Some Q')
      with sf False "2.prems" have "fst (bfs db t (insert cur V) Q' lg')" by simp
      from "2.IH"(2) [OF False sf [symmetric] Some this]
      obtain q where q: "q \<in> set Q'" "(q, t) \<in> (parent_child db)\<^sup>+" by blast
      from scanFamilies_Some [OF sf [unfolded Some]] q(1)
      have "q \<in> set Q \<or> q \<in> set (concat (map (childStmt db) (familyStmt db cur)))"
        by blast
      then have "q \<in> set Q \<or> (cur, q) \<in> parent_child db"
        by (simp only: children_of_parent)
      with q(2) show ?thesis by (auto intro: trancl_into_trancl2)
    qed
  qed
qed

lemma closed_no_reach:
  assumes closed: "R `` V \<subseteq> V" and t: "t \<notin> R `` V" and x: "x \<in> V"
  shows "(x, t) \<notin> R\<^sup>+"
proof
  assume "(x, t) \<in> R\<^sup>+"
  then obtain y where xy: "(x, y) \<in> R\<^sup>*" and yt: "(y, t) \<in> R"
    by (auto dest: tranclD2)
  from xy x have "y \<in> V"
  proof (induction rule: rtrancl_induct)
    case base
    then show ?case .
  next
    case (step y z)
    with closed show ?case by blast
  qed
  with yt t show False by blast
qed

text \<open>
  The loop invariant: every child of a visited person is visited or queued, and none of
  them is the target. Under it a false answer means no chain from a visited or queued
  person reaches the target.
\<close>

lemma bfs_complete:
  assumes "parent_child db `` V \<subseteq> V \<union> set Q" and "t \<notin> parent_child db `` V"
    and "\<not> fst (bfs db t V Q lg)"
  shows "\<forall>x \<in> V \<union> set Q. (x, t) \<notin> (parent_child db)\<^sup>+"
  using assms
proof (induction db t V Q lg rule: bfs.induct)
  case (1 db t V lg)
  then show ?case using closed_no_reach [of "parent_child db" V t] by auto
next
  case (2 db t V cur Q lg)
  show ?case
  proof (cases "cur \<in> V")
    case True
    have inv: "parent_child db `` V \<subseteq> V \<union> set Q"
      using "2.prems"(1) True by auto
    have res: "\<not> fst (bfs db t V Q lg)"
      using "2.prems"(3) True by simp
    from "2.IH"(1) [OF True inv "2.prems"(2) res] True show ?thesis by auto
  next
    case False
    obtain found lg' where sf:
      "scanFamilies db t (insert cur V) (familyStmt db cur) Q (lg @ [BindFamily cur]) = (found, lg')"
      by (cases "scanFamilies db t (insert cur V) (familyStmt db cur) Q (lg @ [BindFamily cur])")
    show ?thesis
    proof (cases found)
      case None
      with sf False "2.prems"(3) show ?thesis by simp
    next
      case (Some Q')
      have "fst (scanFamilies db t (insert cur V) (familyStmt db cur) Q (lg @ [BindFamily cur]))
              \<noteq> None"
        using sf Some by simp
      then have tc: "t \<notin> parent_child db `` {cur}"
        by (simp only: scanFamilies_None parent_child_Image not_False_eq_True)
      have Q': "set Q' = set Q \<union> (parent_child db `` {cur} - insert cur V)"
        using scanFamilies_Some [OF sf [unfolded Some]] by (simp only: parent_child_Image)
      have inv: "parent_child db `` insert cur V \<subseteq> insert cur V \<union> set Q'"
        using "2.prems"(1) Q' by auto
      have tn: "t \<notin> parent_child db `` insert cur V"
        using "2.prems"(2) tc by auto
      have res: "\<not> fst (bfs db t (insert cur V) Q' lg')"
        using "2.prems"(3) False sf Some by simp
      from "2.IH"(2) [OF False sf [symmetric] Some inv tn res] Q'
      show ?thesis by auto
    qed
  qed
qed

text \<open>A person is bound to the family statement only when it is not yet visited.\<close>

lemma bfs_expanded:
  assumes "distinct (expanded lg)" and "set (expanded lg) \<subseteq> V"
  shows "distinct (expanded (snd (bfs db t V Q lg))) \<and>
         set (expanded (snd (bfs db t V Q lg))) \<subseteq> V \<union> set Q \<union> person_ids db"
  using assms
proof (induction db t V Q lg rule: bfs.induct)
  case (1 db t V lg)
  then show ?case by auto
next
  case (2 db t V cur Q lg)
  show ?case
  proof (cases "cur \<in> V")
    case True
    from "2.IH"(1) [OF True "2.prems"] True show ?thesis by auto
  next
    case False
    obtain found lg' where sf:
      "scanFamilies db t (insert cur V) (familyStmt db cur) Q (lg @ [BindFamily cur]) = (found, lg')"
      by (cases "scanFamilies db t (insert cur V) (familyStmt db cur) Q (lg @ [BindFamily cur])")
    have "expanded lg' = expanded (lg @ [BindFamily cur])"
      using scanFamilies_expanded [of db t "insert cur V" "familyStmt db cur" Q "lg @ [BindFamily cur]"] sf
      by simp
    then have lg': "expanded lg' = expanded lg @ [cur]"
      by (simp add: expanded_append)
    have d: "distinct (expanded lg')" and s: "set (expanded lg') \<subseteq> insert cur V"
      using lg' "2.prems" False by auto
    show ?thesis
    proof (cases found)
      case None
      with sf False d s show ?thesis by auto
    next
      case (Some Q')
      have sub: "set Q' \<subseteq> set Q \<union> person_ids db"
        using scanFamilies_subset [OF sf [unfolded Some]] .
      from "2.IH"(2) [OF False sf [symmetric] Some d s] sub sf Some False
      show ?thesis by auto
    qed
  qed
qed

lemma isPersonInSubtree_bfs:
  "rootId \<noteq> targetId \<Longrightarrow>
     isPersonInSubtree db rootId targetId = bfs db targetId {} [rootId] prepared"
  by (simp add: isPersonInSubtree_def prepared_def del: bfs.simps)

lemma isPersonInSubtree_iff:
  assumes "rootId \<noteq> targetId"
  shows "fst (isPersonInSubtree db rootId targetId)
         \<longleftrightarrow> (rootId, targetId) \<in> (parent_child db)\<^sup>+"
proof
  assume "fst (isPersonInSubtree db rootId targetId)"
  then have "fst (bfs db targetId {} [rootId] prepared)"
    by (simp add: isPersonInSubtree_bfs [OF assms] del: bfs.simps)
  from bfs_sound [OF this] show "(rootId, targetId) \<in> (parent_child db)\<^sup>+"
    by simp
next
  assume reach: "(rootId, targetId) \<in> (parent_child db)\<^sup>+"
  show "fst (isPersonInSubtree db rootId targetId)"
  proof (rule ccontr)
    assume "\<not> fst (isPersonInSubtree db rootId targetId)"
    then have no: "\<not> fst (bfs db targetId {} [rootId] prepared)"
      by (simp add: isPersonInSubtree_bfs [OF assms] del: bfs.simps)
    have "\<forall>x \<in> {} \<union> set [rootId]. (x, targetId) \<notin> (parent_child db)\<^sup>+"
      by (rule bfs_complete [OF _ _ no]) auto
    with reach show False by simp
  qed
qed

lemma isPersonInSubtree_expanded:
  "distinct (expanded (snd (isPersonInSubtree db rootId targetId))) \<and>
   set (expanded (snd (isPersonInSubtree db rootId targetId))) \<subseteq> insert rootId (person_ids db)"
proof (cases "rootId = targetId")
  case True
  then show ?thesis by (simp add: isPersonInSubtree_def)
next
  case False
  have "distinct (expanded prepared)" and "set (expanded prepared) \<subseteq> {}"
    by (simp_all add: prepared_def)
  from bfs_expanded [OF this, of db targetId "[rootId]"]
  show ?thesis
    by (simp add: isPersonInSubtree_bfs [OF False] del: bfs.simps)
qed

text \<open>
  Claim C2. When root and target are equal the answer is true and no call reaches the
  engine (not even a \<open>prepare\<close>); otherwise the answer is true exactly when a chain of
  parent-to-child steps leads from root to target.
\<close>

theorem isPersonInSubtree_reachability:
  "(rootId = targetId \<longrightarrow> isPersonInSubtree db rootId targetId = (True, [])) \<and>
   (rootId \<noteq> targetId \<longrightarrow>
      (fst (isPersonInSubtree db rootId targetId)
       \<longleftrightarrow> (rootId, targetId) \<in> (parent_child db)\<^sup>+))"
  using isPersonInSubtree_iff [of rootId targetId db]
  by (simp add: isPersonInSubtree_def)

lemma two_families_P1_P4: "fst (isPersonInSubtree two_families ''P1'' ''P4'')"
  by (simp add: isPersonInSubtree_def two_families_def familyStmt_def childStmt_def)

lemma two_families_P3_P4: "\<not> fst (isPersonInSubtree two_families ''P3'' ''P4'')"
  by (simp add: isPersonInSubtree_def two_families_def familyStmt_def childStmt_def)

theorem isPersonInSubtree_reachability_witness:
  "fst (isPersonInSubtree two_families ''P1'' ''P4'') \<and>
   (''P1'', ''P4'') \<in> (parent_child two_families)\<^sup>+ \<and>
   \<not> fst (isPersonInSubtree two_families ''P3'' ''P4'') \<and>
   (''P3'', ''P4'') \<notin> (parent_child two_families)\<^sup>+ \<and>
   isPersonInSubtree two_families ''P1'' ''P1'' = (True, [])"
  using isPersonInSubtree_reachability [of "''P1''" "''P4''" two_families]
    isPersonInSubtree_reachability [of "''P3''" "''P4''" two_families]
    isPersonInSubtree_reachability [of "''P1''" "''P1''" two_families]
    two_families_P1_P4 two_families_P3_P4
  by simp

text \<open>
  Claim C3. The traversal is a total function of the two relations (its recursion is
  justified by the termination proof above, whatever the data: cycles, a child listed
  in several families). No person is bound to the family statement twice, so at most
  one person per child row, and the root, are expanded; and when no chain leads from
  root to target the answer is false.
\<close>

theorem isPersonInSubtree_terminates:
  "distinct (expanded (snd (isPersonInSubtree db rootId targetId))) \<and>
   length (expanded (snd (isPersonInSubtree db rootId targetId))) \<le> Suc (length (children db)) \<and>
   (rootId \<noteq> targetId \<and> (rootId, targetId) \<notin> (parent_child db)\<^sup>+
      \<longrightarrow> isPersonInSubtree db rootId targetId
            = (False, snd (isPersonInSubtree db rootId targetId)))"
proof -
  let ?ex = "expanded (snd (isPersonInSubtree db rootId targetId))"
  have d: "distinct ?ex" and s: "set ?ex \<subseteq> insert rootId (person_ids db)"
    using isPersonInSubtree_expanded [of db rootId targetId] by auto
  have "length ?ex = card (set ?ex)"
    using d by (simp add: distinct_card)
  also have "\<dots> \<le> card (insert rootId (person_ids db))"
    using s by (intro card_mono) (auto simp: person_ids_def)
  also have "\<dots> \<le> Suc (card (person_ids db))"
    by (simp add: card_insert_if person_ids_def)
  also have "\<dots> \<le> Suc (length (children db))"
    using card_length [of "map person_id (children db)"] by (simp add: person_ids_def)
  finally have len: "length ?ex \<le> Suc (length (children db))" .
  have "rootId \<noteq> targetId \<and> (rootId, targetId) \<notin> (parent_child db)\<^sup>+
      \<longrightarrow> isPersonInSubtree db rootId targetId
            = (False, snd (isPersonInSubtree db rootId targetId))"
    using isPersonInSubtree_iff [of rootId targetId db]
    by (cases "isPersonInSubtree db rootId targetId") auto
  with d len show ?thesis by blast
qed

lemma cyclic_families_run:
  "isPersonInSubtree cyclic_families ''P1'' ''P9'' =
     (False,
      [Prepare ''SELECT id FROM families WHERE father_id = ? OR mother_id = ?'',
       Prepare ''SELECT person_id FROM children WHERE family_id = ?'',
       BindFamily ''P1'', BindChild ''F1'', BindFamily ''P2'', BindChild ''F2'',
       BindFamily ''P3''])"
  by (simp add: isPersonInSubtree_def cyclic_families_def familyStmt_def childStmt_def)

theorem isPersonInSubtree_terminates_witness:
  "''P1'' \<noteq> ''P9'' \<and> (''P1'', ''P9'') \<notin> (parent_child cyclic_families)\<^sup>+ \<and>
   isPersonInSubtree cyclic_families ''P1'' ''P9'' =
     (False, snd (isPersonInSubtree cyclic_families ''P1'' ''P9'')) \<and>
   expanded (snd (isPersonInSubtree cyclic_families ''P1'' ''P9'')) = [''P1'', ''P2'', ''P3''] \<and>
   distinct (expanded (snd (isPersonInSubtree cyclic_families ''P1'' ''P9'')))"
proof -
  have ne: "''P1'' \<noteq> ''P9''" by simp
  have "\<not> fst (isPersonInSubtree cyclic_families ''P1'' ''P9'')"
    by (simp add: cyclic_families_run)
  with isPersonInSubtree_iff [OF ne, of cyclic_families]
  have nr: "(''P1'', ''P9'') \<notin> (parent_child cyclic_families)\<^sup>+" by simp
  from isPersonInSubtree_terminates [of cyclic_families "''P1''" "''P9''"] ne nr
  show ?thesis by (simp add: cyclic_families_run)
qed

section \<open>Exceptions: where the coercions and the filter values cannot throw\<close>

lemma mapM_length: "mapM f xs = Inr ys \<Longrightarrow> length ys = length xs"
  by (induction xs arbitrary: ys) (auto simp: andThen_def split: sum.splits)

lemma mapM_total: "(\<And>x. \<exists>y. f x = Inr y) \<Longrightarrow> \<exists>ys. mapM f xs = Inr ys"
proof (induction xs)
  case Nil
  then show ?case by simp
next
  case (Cons x xs)
  from Cons.prems obtain y where "f x = Inr y" by blast
  moreover from Cons obtain ys where "mapM f xs = Inr ys" by blast
  ultimately show ?case by (simp add: andThen_def)
qed

lemma BOOLEAN_COLUMNS_not_inherited:
  "t \<notin> set object_prototype_names \<Longrightarrow> BOOLEAN_COLUMNS t \<noteq> Inherited"
  by (simp add: BOOLEAN_COLUMNS_def)



lemma coerceFilterValue_total:
  assumes "\<And>t. tbl = Some t \<Longrightarrow> t \<notin> set object_prototype_names"
  shows "\<exists>w. coerceFilterValue tbl col v = Inr w"
proof (cases tbl)
  case None
  then show ?thesis by (auto simp: coerceFilterValue_def split: option.splits)
next
  case (Some t)
  with assms have "BOOLEAN_COLUMNS t \<noteq> Inherited"
    by (simp add: BOOLEAN_COLUMNS_not_inherited)
  then have "\<And>c. isBooleanColumn t c = Inr True \<or> isBooleanColumn t c = Inr False"
    by (cases "BOOLEAN_COLUMNS t") (auto simp: isBooleanColumn_def)
  then have "\<And>c. \<exists>w. andThen (isBooleanColumn t c) (\<lambda>b.
                           if b \<and> v = JBool True then Inr (JNum 1)
                           else if b \<and> v = JBool False then Inr (JNum 0)
                           else Inr v) = Inr w"
  proof -
    fix c
    assume "\<And>c. isBooleanColumn t c = Inr True \<or> isBooleanColumn t c = Inr False"
    then have "isBooleanColumn t c = Inr True \<or> isBooleanColumn t c = Inr False" .
    then show "\<exists>w. andThen (isBooleanColumn t c) (\<lambda>b.
                           if b \<and> v = JBool True then Inr (JNum 1)
                           else if b \<and> v = JBool False then Inr (JNum 0)
                           else Inr v) = Inr w"
      by (auto simp: andThen_def)
  qed
  then show ?thesis using Some
    by (auto simp: coerceFilterValue_def split: option.splits)
qed

section \<open>Properties of the filter builder\<close>

text \<open>
  Claim C8. A set-membership filter whose value is the empty array adds the condition
  \<open>1 = 0\<close> and no parameter, so a lone such filter compiles to \<open>WHERE 1 = 0\<close>. On a
  non-empty array of \<open>n\<close> values the condition added is the quoted column, \<open>IN\<close> and
  \<open>n\<close> question marks joined by commas, with \<open>n\<close> parameters; the step returns unless
  the table name is a member inherited from \<open>Object.prototype\<close>.
\<close>

theorem in_filter_compiles:
  assumes "ftype f = ''in''" and "fvalue f = JArr vals"
  shows "(vals = [] \<longrightarrow>
            whereStep tbl f (conds, params) = Inr (conds @ [''1 = 0''], params) \<and>
            buildWhere [f] tbl = Inr (''WHERE 1 = 0'', [])) \<and>
         (vals \<noteq> [] \<longrightarrow>
            (\<forall>conds' params'. whereStep tbl f (conds, params) = Inr (conds', params') \<longrightarrow>
               conds' = conds @ [quoted (tmpl (column f)) @ '' IN (''
                                   @ join_str '', '' (replicate (length vals) ''?'') @ '')''] \<and>
               (\<exists>ps. params' = params @ ps \<and> length ps = length vals)) \<and>
            ((\<forall>t. tbl = Some t \<longrightarrow> t \<notin> set object_prototype_names) \<longrightarrow>
               (\<exists>r. whereStep tbl f (conds, params) = Inr r)))"
proof -
  have empty: "vals = [] \<longrightarrow>
            whereStep tbl f (conds, params) = Inr (conds @ [''1 = 0''], params) \<and>
            buildWhere [f] tbl = Inr (''WHERE 1 = 0'', [])"
    using assms by (simp add: whereStep_def buildWhere_def andThen_def)
  have shape: "\<forall>conds' params'. vals \<noteq> [] \<and> whereStep tbl f (conds, params) = Inr (conds', params') \<longrightarrow>
               conds' = conds @ [quoted (tmpl (column f)) @ '' IN (''
                                   @ join_str '', '' (replicate (length vals) ''?'') @ '')''] \<and>
               (\<exists>ps. params' = params @ ps \<and> length ps = length vals)"
    using assms
    by (auto simp: whereStep_def andThen_def map_replicate_const dest: mapM_length
        split: sum.splits)
  have total: "vals \<noteq> [] \<and> (\<forall>t. tbl = Some t \<longrightarrow> t \<notin> set object_prototype_names) \<longrightarrow>
               (\<exists>r. whereStep tbl f (conds, params) = Inr r)"
  proof (intro impI, elim conjE)
    assume ok: "\<forall>t. tbl = Some t \<longrightarrow> t \<notin> set object_prototype_names" and ne: "vals \<noteq> []"
    have "\<exists>ps. mapM (coerceFilterValue tbl (column f)) vals = Inr ps"
      by (rule mapM_total) (rule coerceFilterValue_total, simp add: ok)
    then show "\<exists>r. whereStep tbl f (conds, params) = Inr r"
      using assms ne by (auto simp: whereStep_def andThen_def)
  qed
  from empty shape total show ?thesis by blast
qed

theorem in_filter_compiles_witness:
  "ftype (id_in []) = ''in'' \<and> fvalue (id_in []) = JArr [] \<and>
   buildWhere [id_in []] (Some ''people'') = Inr (''WHERE 1 = 0'', []) \<and>
   whereStep (Some ''people'') (id_in [JStr ''a'', JStr ''b'']) ([], [])
     = Inr ([quoted ''id'' @ '' IN (?, ?)''], [JStr ''a'', JStr ''b''])"
proof -
  have run: "whereStep (Some ''people'') (id_in [JStr ''a'', JStr ''b'']) ([], [])
     = Inr ([quoted ''id'' @ '' IN (?, ?)''], [JStr ''a'', JStr ''b''])"
    by (simp add: whereStep_def id_in_def andThen_def coerceFilterValue_def isBooleanColumn_def
        BOOLEAN_COLUMNS_def tmpl_def)
  from in_filter_compiles [of "id_in []" "[]" "Some ''people''" "[]" "[]"]
    in_filter_compiles [of "id_in [JStr ''a'', JStr ''b'']" "[JStr ''a'', JStr ''b'']"
      "Some ''people''" "[]" "[]"] run
  show ?thesis by (simp add: id_in_def)
qed

lemma split_str_nonempty: "split_str sep s \<noteq> []"
  by (induction s) (auto split: list.splits)

lemma split_str_no_sep: "sep \<notin> set s \<Longrightarrow> split_str sep s = [s]"
  by (induction s) auto

lemma split_str_append:
  "sep \<notin> set a \<Longrightarrow> split_str sep (a @ sep # b) = a # split_str sep b"
  by (induction a) auto

lemma join_str_Cons: "ys \<noteq> [] \<Longrightarrow> join_str sep (x # ys) = x @ sep @ join_str sep ys"
  by (cases ys) auto

lemma split_join:
  "segs \<noteq> [] \<Longrightarrow> (\<forall>s \<in> set segs. sep \<notin> set s) \<Longrightarrow>
     split_str sep (join_str [sep] segs) = segs"
proof (induction segs)
  case Nil
  then show ?case by simp
next
  case (Cons s segs)
  show ?case
  proof (cases "segs = []")
    case True
    with Cons.prems show ?thesis by (simp add: split_str_no_sep)
  next
    case False
    with Cons show ?thesis
      by (simp add: join_str_Cons split_str_append)
  qed
qed

lemma join_split: "join_str [sep] (split_str sep s) = s"
proof (induction s)
  case Nil
  then show ?case by simp
next
  case (Cons c s)
  obtain w ws where ws: "split_str sep s = w # ws"
    using split_str_nonempty [of sep s] by (cases "split_str sep s") auto
  show ?case
  proof (cases "c = sep")
    case True
    with Cons ws show ?thesis by (simp add: join_str_Cons)
  next
    case False
    with Cons ws show ?thesis by (cases ws) auto
  qed
qed

lemma trim_id:
  assumes "seg = [] \<or> (\<not> is_space (hd seg) \<and> \<not> is_space (last seg))"
  shows "trim seg = seg"
proof (cases seg)
  case Nil
  then show ?thesis by (simp add: trim_def)
next
  case (Cons c cs)
  with assms have h: "\<not> is_space (hd seg)" and l: "\<not> is_space (last seg)" by auto
  from h have "dropWhile is_space seg = seg"
    by (simp add: dropWhile_eq_self_iff)
  moreover from l have "dropWhile is_space (rev seg) = rev seg"
    by (simp add: dropWhile_eq_self_iff hd_rev)
  ultimately show ?thesis by (simp add: trim_def)
qed

lemma parseOrPart_triple:
  assumes "trim seg = col @ ''.'' @ opr @ ''.'' @ val"
    and "CHR ''.'' \<notin> set col" and "CHR ''.'' \<notin> set opr"
  shows "parseOrPart seg = \<lparr>or_column = col, or_op = or_operator (Some opr), or_value = val\<rparr>"
proof -
  have "split_str CHR ''.'' (trim seg) = col # opr # split_str CHR ''.'' val"
    using assms by (simp add: split_str_append)
  then show ?thesis
    by (simp add: parseOrPart_def join_split [of "CHR ''.''", simplified])
qed


text \<open>
  Claim C9. The condition string of a disjunction is cut at its commas: a string made of
  comma-free segments joined by commas parses segment by segment. A segment (trimmed of
  surrounding white space, which leaves it unchanged when it has none) that reads
  \<open>col.opr.val\<close>, with no period in \<open>col\<close> and \<open>opr\<close>, gives the column \<open>col\<close>, the
  SQL operator of \<open>opr\<close> and the value \<open>val\<close> whole, periods included. The six known
  codes map to \<open>=\<close>, \<open>!=\<close>, \<open>>\<close>, \<open>>=\<close>, \<open><\<close>, \<open><=\<close> and every other code to \<open>=\<close>.
  The filter step never throws; it adds one parenthesised group of the terms joined by
  \<open>OR\<close>, and the parsed values as string parameters, whatever the table and column.
\<close>

theorem or_filter_parsing:
  "(segs \<noteq> [] \<and> (\<forall>s \<in> set segs. CHR '','' \<notin> set s) \<longrightarrow>
      parseOrCondition (join_str '','' segs) = map parseOrPart segs) \<and>
   (trim seg = col @ ''.'' @ opr @ ''.'' @ val \<and> CHR ''.'' \<notin> set col \<and> CHR ''.'' \<notin> set opr \<longrightarrow>
      parseOrPart seg = \<lparr>or_column = col, or_op = or_operator (Some opr), or_value = val\<rparr>) \<and>
   (seg = [] \<or> (\<not> is_space (hd seg) \<and> \<not> is_space (last seg)) \<longrightarrow> trim seg = seg) \<and>
   (opr \<notin> {''eq'', ''neq'', ''gt'', ''gte'', ''lt'', ''lte''} \<longrightarrow> or_operator (Some opr) = ''='') \<and>
   map (\<lambda>c. or_operator (Some c)) [''eq'', ''neq'', ''gt'', ''gte'', ''lt'', ''lte'']
     = [''='', ''!='', ''>'', ''>='', ''<'', ''<=''] \<and>
   (ftype f = ''or'' \<and> condition f = Some cond \<longrightarrow>
      whereStep tbl f (conds, params) =
        Inr (conds @ [''('' @ join_str '' OR ''
                        (map (\<lambda>part. quoted (or_column part) @ '' '' @ or_op part @ '' ?'')
                           (parseOrCondition cond)) @ '')''],
             params @ map (\<lambda>part. JStr (or_value part)) (parseOrCondition cond)))"
proof -
  have commas: "segs \<noteq> [] \<and> (\<forall>s \<in> set segs. CHR '','' \<notin> set s) \<longrightarrow>
      parseOrCondition (join_str '','' segs) = map parseOrPart segs"
    using split_join [of segs "CHR '',''"] by (simp add: parseOrCondition_def)
  have periods: "trim seg = col @ ''.'' @ opr @ ''.'' @ val \<and> CHR ''.'' \<notin> set col \<and>
      CHR ''.'' \<notin> set opr \<longrightarrow>
      parseOrPart seg = \<lparr>or_column = col, or_op = or_operator (Some opr), or_value = val\<rparr>"
    using parseOrPart_triple [of seg col opr val] by blast
  have trimmed: "seg = [] \<or> (\<not> is_space (hd seg) \<and> \<not> is_space (last seg)) \<longrightarrow> trim seg = seg"
    using trim_id [of seg] by blast
  have unknown: "opr \<notin> {''eq'', ''neq'', ''gt'', ''gte'', ''lt'', ''lte''} \<longrightarrow>
      or_operator (Some opr) = ''=''"
    by (simp add: or_operator_def)
  have known: "map (\<lambda>c. or_operator (Some c)) [''eq'', ''neq'', ''gt'', ''gte'', ''lt'', ''lte'']
     = [''='', ''!='', ''>'', ''>='', ''<'', ''<='']"
    by (simp add: or_operator_def)
  have "parseOrCondition cond \<noteq> []"
    by (simp add: parseOrCondition_def split_str_nonempty)
  then have step: "ftype f = ''or'' \<and> condition f = Some cond \<longrightarrow>
      whereStep tbl f (conds, params) =
        Inr (conds @ [''('' @ join_str '' OR ''
                        (map (\<lambda>part. quoted (or_column part) @ '' '' @ or_op part @ '' ?'')
                           (parseOrCondition cond)) @ '')''],
             params @ map (\<lambda>part. JStr (or_value part)) (parseOrCondition cond))"
    by (simp add: whereStep_def Let_def)
  from commas periods trimmed unknown known step show ?thesis by blast
qed



theorem or_filter_parsing_witness:
  "parseOrCondition ''father_id.eq.A,mother_id.eq.B''
     = [\<lparr>or_column = ''father_id'', or_op = ''='', or_value = ''A''\<rparr>,
        \<lparr>or_column = ''mother_id'', or_op = ''='', or_value = ''B''\<rparr>] \<and>
   buildWhere [or_filter ''father_id.eq.A,mother_id.eq.B''] (Some ''families'')
     = Inr (''WHERE ('' @ quoted ''father_id'' @ '' = ? OR '' @ quoted ''mother_id'' @ '' = ?)'',
            [JStr ''A'', JStr ''B'']) \<and>
   parseOrPart '' updated_at.gte.2026-02-26T00:00:00.000Z ''
     = \<lparr>or_column = ''updated_at'', or_op = ''>='', or_value = ''2026-02-26T00:00:00.000Z''\<rparr> \<and>
   parseOrPart ''is_living.like.true''
     = \<lparr>or_column = ''is_living'', or_op = ''='', or_value = ''true''\<rparr>"
proof -
  have t: "trim ''father_id.eq.A'' = ''father_id'' @ ''.'' @ ''eq'' @ ''.'' @ ''A''"
    "trim ''mother_id.eq.B'' = ''mother_id'' @ ''.'' @ ''eq'' @ ''.'' @ ''B''"
    "trim '' updated_at.gte.2026-02-26T00:00:00.000Z ''
       = ''updated_at'' @ ''.'' @ ''gte'' @ ''.'' @ ''2026-02-26T00:00:00.000Z''"
    "trim ''is_living.like.true'' = ''is_living'' @ ''.'' @ ''like'' @ ''.'' @ ''true''"
    by (simp_all add: trim_def is_space_def)
  have a: "parseOrCondition (join_str '','' [''father_id.eq.A'', ''mother_id.eq.B''])
     = map parseOrPart [''father_id.eq.A'', ''mother_id.eq.B'']"
    using or_filter_parsing [of "[''father_id.eq.A'', ''mother_id.eq.B'']" "[]" "[]" "[]" "[]"
        undefined undefined undefined undefined undefined]
    by simp
  have b: "parseOrPart ''father_id.eq.A''
     = \<lparr>or_column = ''father_id'', or_op = or_operator (Some ''eq''), or_value = ''A''\<rparr>"
    using or_filter_parsing [of "[]" "''father_id.eq.A''" "''father_id''" "''eq''" "''A''"
        undefined undefined undefined undefined undefined] t(1)
    by simp
  have c: "parseOrPart ''mother_id.eq.B''
     = \<lparr>or_column = ''mother_id'', or_op = or_operator (Some ''eq''), or_value = ''B''\<rparr>"
    using or_filter_parsing [of "[]" "''mother_id.eq.B''" "''mother_id''" "''eq''" "''B''"
        undefined undefined undefined undefined undefined] t(2)
    by simp
  have d: "parseOrPart '' updated_at.gte.2026-02-26T00:00:00.000Z ''
     = \<lparr>or_column = ''updated_at'', or_op = or_operator (Some ''gte''),
        or_value = ''2026-02-26T00:00:00.000Z''\<rparr>"
    using or_filter_parsing [of "[]" "'' updated_at.gte.2026-02-26T00:00:00.000Z ''"
        "''updated_at''" "''gte''" "''2026-02-26T00:00:00.000Z''"
        undefined undefined undefined undefined undefined] t(3)
    by simp
  have e: "parseOrPart ''is_living.like.true''
     = \<lparr>or_column = ''is_living'', or_op = or_operator (Some ''like''), or_value = ''true''\<rparr>"
    using or_filter_parsing [of "[]" "''is_living.like.true''" "''is_living''" "''like''" "''true''"
        undefined undefined undefined undefined undefined] t(4)
    by simp
  have ops: "or_operator (Some ''eq'') = ''=''" "or_operator (Some ''gte'') = ''>=''"
    "or_operator (Some ''like'') = ''=''"
    by (simp_all add: or_operator_def)
  have parts: "parseOrCondition ''father_id.eq.A,mother_id.eq.B''
     = [\<lparr>or_column = ''father_id'', or_op = ''='', or_value = ''A''\<rparr>,
        \<lparr>or_column = ''mother_id'', or_op = ''='', or_value = ''B''\<rparr>]"
    using a b c ops(1) by simp
  have "ftype (or_filter ''father_id.eq.A,mother_id.eq.B'') = ''or'' \<and>
        condition (or_filter ''father_id.eq.A,mother_id.eq.B'') = Some ''father_id.eq.A,mother_id.eq.B''"
    by (simp add: or_filter_def)
  with or_filter_parsing [of "[]" "[]" "[]" "[]" "[]" "or_filter ''father_id.eq.A,mother_id.eq.B''"
        "''father_id.eq.A,mother_id.eq.B''" "Some ''families''" "[]" "[]"]
  have "whereStep (Some ''families'') (or_filter ''father_id.eq.A,mother_id.eq.B'') ([], []) =
        Inr ([] @ [''('' @ join_str '' OR ''
                        (map (\<lambda>part. quoted (or_column part) @ '' '' @ or_op part @ '' ?'')
                           (parseOrCondition ''father_id.eq.A,mother_id.eq.B'')) @ '')''],
             [] @ map (\<lambda>part. JStr (or_value part))
                    (parseOrCondition ''father_id.eq.A,mother_id.eq.B''))"
    by blast
  then have step:
    "whereStep (Some ''families'') (or_filter ''father_id.eq.A,mother_id.eq.B'') ([], [])
     = Inr ([''('' @ quoted ''father_id'' @ '' = ? OR '' @ quoted ''mother_id'' @ '' = ?)''],
            [JStr ''A'', JStr ''B''])"
    unfolding parts by simp
  have bw: "buildWhere [or_filter ''father_id.eq.A,mother_id.eq.B''] (Some ''families'')
     = Inr (''WHERE ('' @ quoted ''father_id'' @ '' = ? OR '' @ quoted ''mother_id'' @ '' = ?)'',
            [JStr ''A'', JStr ''B''])"
    unfolding buildWhere_def whereLoop.simps step by (simp add: andThen_def)
  from parts bw d e ops show ?thesis by simp
qed

section \<open>Properties of the query executor: cardinality and failures\<close>

lemma selectRows_engine:
  assumes "buildWhere (filters p) (Some (table p)) = Inr (clause, params)"
    and "prepare_bind W db (selectSql p clause) params = Inr cur"
  shows "selectRows W db p = stepAll (json W) (table p) (c_rows cur) (c_fail cur)"
  using assms by (simp add: selectRows_def andThen_def)

text \<open>
  Claim C4. Let \<open>rows\<close> be the coerced rows the read yields. With \<open>single\<close> set, no row
  gives null data and the error of \<open>notFoundError()\<close>, and exactly one row gives that
  row as the data (the object, not an array) and no error. With \<open>maybeSingle\<close> set and
  \<open>single\<close> not, no row gives null data and no error, and one or more rows give the first
  row and no error.
\<close>

theorem select_single_maybeSingle:
  assumes "selectRows W db p = Inr rows"
  shows "(single p \<and> rows = [] \<longrightarrow>
            executeSelect W db p = Inr \<lparr>data = JNull, error = Some (notFoundError W)\<rparr>) \<and>
         (\<forall>r. single p \<and> rows = [r] \<longrightarrow>
            executeSelect W db p = Inr \<lparr>data = JObj r, error = None\<rparr>) \<and>
         (\<not> single p \<and> maybeSingle p \<and> rows = [] \<longrightarrow>
            executeSelect W db p = Inr \<lparr>data = JNull, error = None\<rparr>) \<and>
         (\<forall>r rs. \<not> single p \<and> maybeSingle p \<and> rows = r # rs \<longrightarrow>
            executeSelect W db p = Inr \<lparr>data = JObj r, error = None\<rparr>)"
  using assms by (simp add: executeSelect_def andThen_def)

theorem select_single_maybeSingle_witness:
  "selectRows echo_world [] (people_query\<lparr>single := True\<rparr>) = Inr [] \<and>
   executeSelect echo_world [] (people_query\<lparr>single := True\<rparr>)
     = Inr \<lparr>data = JNull, error = Some \<lparr>message = ''Row not found'', code = Some ''PGRST116''\<rparr>\<rparr> \<and>
   selectRows echo_world [[(''id'', JStr ''a'')]] (people_query\<lparr>single := True\<rparr>)
     = Inr [[(''id'', JStr ''a'')]] \<and>
   executeSelect echo_world [[(''id'', JStr ''a'')]] (people_query\<lparr>single := True\<rparr>)
     = Inr \<lparr>data = JObj [(''id'', JStr ''a'')], error = None\<rparr> \<and>
   executeSelect echo_world [] (people_query\<lparr>maybeSingle := True\<rparr>)
     = Inr \<lparr>data = JNull, error = None\<rparr> \<and>
   executeSelect echo_world [[(''id'', JStr ''a'')], [(''id'', JStr ''b'')]]
       (people_query\<lparr>maybeSingle := True\<rparr>)
     = Inr \<lparr>data = JObj [(''id'', JStr ''a'')], error = None\<rparr>"
proof -
  have rows: "\<And>db q. filters q = [] \<Longrightarrow> table q = ''people'' \<Longrightarrow> db = [] \<or> db = [[(''id'', JStr ''a'')]] \<or> db = [[(''id'', JStr ''a'')], [(''id'', JStr ''b'')]] 
      \<Longrightarrow> selectRows echo_world db q = Inr db"
    by (auto simp add: selectRows_def buildWhere_def andThen_def echo_world_def
        coerceRowFromSqlite_def BOOLEAN_COLUMNS_def JSON_COLUMNS_def object_prototype_names_def)
  have r0: "selectRows echo_world [] (people_query\<lparr>single := True\<rparr>) = Inr []"
    by (rule rows) (simp_all add: people_query_def)
  have r1: "selectRows echo_world [[(''id'', JStr ''a'')]] (people_query\<lparr>single := True\<rparr>)
     = Inr [[(''id'', JStr ''a'')]]"
    by (rule rows) (simp_all add: people_query_def)
  have r2: "selectRows echo_world [] (people_query\<lparr>maybeSingle := True\<rparr>) = Inr []"
    by (rule rows) (simp_all add: people_query_def)
  have r3: "selectRows echo_world [[(''id'', JStr ''a'')], [(''id'', JStr ''b'')]]
       (people_query\<lparr>maybeSingle := True\<rparr>) = Inr [[(''id'', JStr ''a'')], [(''id'', JStr ''b'')]]"
    by (rule rows) (simp_all add: people_query_def)
  have nf: "notFoundError echo_world = \<lparr>message = ''Row not found'', code = Some ''PGRST116''\<rparr>"
    by (simp add: echo_world_def)
  from select_single_maybeSingle [OF r0] select_single_maybeSingle [OF r1]
    select_single_maybeSingle [OF r2] select_single_maybeSingle [OF r3] r0 r1 nf
  show ?thesis by (simp add: people_query_def)
qed

text \<open>
  Claim C5. \<open>executeQuery\<close> always returns a result (no exception leaves it). When the
  \<open>try\<close> block returns, that is the result. When it throws an error whose message
  contains \<open>UNIQUE constraint failed\<close>, the result is null data and an error with that
  message and the code 23505; when it throws anything else, the result is null data and
  the error \<open>sqliteError\<close> makes of it.
\<close>

theorem executeQuery_catches:
  "\<exists>res. fst (executeQuery W db p) = Inr res \<and>
     (\<forall>r. fst (dispatch W db p) = Inr r \<longrightarrow> res = r) \<and>
     (\<forall>err. fst (dispatch W db p) = Inl err \<longrightarrow>
        (str_includes (error_message err) ''UNIQUE constraint failed'' \<longrightarrow>
           res = \<lparr>data = JNull,
                  error = Some \<lparr>message = error_message err, code = Some ''23505''\<rparr>\<rparr>) \<and>
        (\<not> str_includes (error_message err) ''UNIQUE constraint failed'' \<longrightarrow>
           res = \<lparr>data = JNull, error = Some (sqliteError W err)\<rparr>))"
proof (cases "dispatch W db p")
  case (Pair outcome db')
  then show ?thesis
    by (cases outcome) (auto simp: executeQuery_def Let_def)
qed

theorem executeQuery_catches_witness:
  "fst (dispatch unique_violation_world [] people_insert)
     = Inl (JsError ''UNIQUE constraint failed: people.id'') \<and>
   str_includes ''UNIQUE constraint failed: people.id'' ''UNIQUE constraint failed'' \<and>
   fst (executeQuery unique_violation_world [] people_insert)
     = Inr \<lparr>data = JNull,
            error = Some \<lparr>message = ''UNIQUE constraint failed: people.id'', code = Some ''23505''\<rparr>\<rparr>"
proof -
  have d: "fst (dispatch unique_violation_world [] people_insert)
     = Inl (JsError ''UNIQUE constraint failed: people.id'')"
    by (simp add: dispatch_def executeInsert_def people_insert_def orThrow_def insertData_def
        coerceDataToSqlite_def BOOLEAN_COLUMNS_def JSON_COLUMNS_def andThen_def
        unique_violation_world_def echo_world_def obj_read_def obj_write_def object_of_def
        assign_def TABLES_WITH_UPDATED_AT_def
        object_prototype_names_def)
  have s: "str_includes ''UNIQUE constraint failed: people.id'' ''UNIQUE constraint failed''"
    by simp
  from executeQuery_catches [of unique_violation_world "[]" people_insert] d s
  show ?thesis by auto
qed

section \<open>Properties of the query executor: generated columns\<close>

lemma map_of_obj_set: "map_of (obj_set k v ob) = (map_of ob)(k \<mapsto> v)"
  by (induction ob) (auto simp: fun_eq_iff)

lemma obj_get_absent: "map_of ob k = None \<Longrightarrow> \<not> truthy (obj_get ob k)"
  by (simp add: obj_get_def)

lemma dataToSqlite_keys:
  "dataToSqlite J b j d = Inr r \<Longrightarrow> map fst r = map fst d"
proof (induction d arbitrary: r)
  case Nil
  then show ?case by simp
next
  case (Cons kv d)
  obtain k v where kv: "kv = (k, v)" by (cases kv)
  from Cons.prems kv obtain v' r' where
    "dataToSqlite J b j d = Inr r'" and "r = (k, v') # r'"
    by (auto simp: andThen_def split: sum.splits if_splits)
  with Cons.IH [of r'] kv show ?case by simp
qed

lemma dataToSqlite_other:
  assumes "dataToSqlite J b j d = Inr r"
    and "has_opt b k \<noteq> Inr True" and "has_opt j k \<noteq> Inr True"
  shows "map_of r k = map_of d k"
  using assms(1)
proof (induction d arbitrary: r)
  case Nil
  then show ?case by simp
next
  case (Cons kv d)
  obtain k' v where kv: "kv = (k', v)" by (cases kv)
  from Cons.prems kv obtain v' r' where
    rest: "dataToSqlite J b j d = Inr r'" and r: "r = (k', v') # r'"
    and v': "k' = k \<longrightarrow> v' = v"
    using assms(2,3)
    by (auto simp: andThen_def split: sum.splits if_splits)
  with Cons.IH [OF rest] kv show ?case by simp
qed

lemma plain_column:
  assumes "k \<in> {''id'', ''created_at'', ''updated_at''}"
  shows "has_opt (BOOLEAN_COLUMNS t) k \<noteq> Inr True" and "has_opt (JSON_COLUMNS t) k \<noteq> Inr True"
  using assms by (auto simp: BOOLEAN_COLUMNS_def JSON_COLUMNS_def)

lemma coerceDataToSqlite_plain:
  assumes "coerceDataToSqlite J t d = Inr r" and "k \<in> {''id'', ''created_at'', ''updated_at''}"
  shows "map_of r k = map_of d k"
  using assms(1) plain_column [OF assms(2), of t] unfolding coerceDataToSqlite_def
  by (rule dataToSqlite_other)





















text \<open>
  Claim C7. Let \<open>d\<close> be the record whose keys and values become the SET clause of
  \<open>executeUpdate\<close>. On a table that tracks \<open>updated_at\<close>, \<open>d.updated_at\<close> is the time
  read, whatever the body supplied. On any other table \<open>d\<close> is the coerced body: same
  keys, \<open>updated_at\<close> present only if supplied and then as supplied.
\<close>

theorem update_stamps_updated_at:
  "(\<forall>d. updateData J t b now = Inr d \<longrightarrow>
      (t \<in> set TABLES_WITH_UPDATED_AT \<longrightarrow> map_of d ''updated_at'' = Some (JStr now)) \<and>
      (t \<notin> set TABLES_WITH_UPDATED_AT \<longrightarrow>
         (\<forall>r. b = One r \<or> (\<exists>rs. b = Many (r # rs)) \<or> (b = NoBody \<and> r = []) \<longrightarrow>
            coerceDataToSqlite J t r = Inr d \<and>
            map fst d = map fst r \<and>
            map_of d ''updated_at'' = map_of r ''updated_at''))) \<and>
   (\<forall>d clause params.
      updateData (json W) (table p) (body p) (nowISO W 0) = Inr d \<and>
      buildWhere (filters p) (Some (table p)) = Inr (clause, params) \<and> \<not> wantsRows p \<longrightarrow>
      executeUpdate W db p =
        orThrow (run W db (updateSql (table p) d clause) (map snd d @ params)) db
          (\<lambda>db'. (Inr \<lparr>data = JNull, error = None\<rparr>, db')))"
proof -
  have stamped: "\<forall>d. updateData J t b now = Inr d \<and> t \<in> set TABLES_WITH_UPDATED_AT \<longrightarrow>
      map_of d ''updated_at'' = Some (JStr now)"
    by (auto simp: updateData_def andThen_def map_of_obj_set split: sum.splits)
  have untouched: "\<forall>d r. updateData J t b now = Inr d \<and> t \<notin> set TABLES_WITH_UPDATED_AT \<and>
      (b = One r \<or> (\<exists>rs. b = Many (r # rs)) \<or> (b = NoBody \<and> r = [])) \<longrightarrow>
            coerceDataToSqlite J t r = Inr d \<and>
            map fst d = map fst r \<and>
            map_of d ''updated_at'' = map_of r ''updated_at''"
  proof (intro allI impI, elim conjE)
    fix d r
    assume u: "updateData J t b now = Inr d" and t: "t \<notin> set TABLES_WITH_UPDATED_AT"
      and b: "b = One r \<or> (\<exists>rs. b = Many (r # rs)) \<or> (b = NoBody \<and> r = [])"
    from u t b have c: "coerceDataToSqlite J t r = Inr d"
      by (auto simp: updateData_def andThen_def split: sum.splits)
    from c have "map fst d = map fst r"
      unfolding coerceDataToSqlite_def by (rule dataToSqlite_keys)
    moreover from c have "map_of d ''updated_at'' = map_of r ''updated_at''"
      by (rule coerceDataToSqlite_plain) simp
    ultimately show "coerceDataToSqlite J t r = Inr d \<and>
            map fst d = map fst r \<and>
            map_of d ''updated_at'' = map_of r ''updated_at''"
      using c by simp
  qed
  have runs: "\<forall>d clause params.
      updateData (json W) (table p) (body p) (nowISO W 0) = Inr d \<and>
      buildWhere (filters p) (Some (table p)) = Inr (clause, params) \<and> \<not> wantsRows p \<longrightarrow>
      executeUpdate W db p =
        orThrow (run W db (updateSql (table p) d clause) (map snd d @ params)) db
          (\<lambda>db'. (Inr \<lparr>data = JNull, error = None\<rparr>, db'))"
    by (simp add: executeUpdate_def orThrow_def)
  from stamped untouched runs show ?thesis by blast
qed

theorem update_stamps_updated_at_witness:
  "''people'' \<in> set TABLES_WITH_UPDATED_AT \<and>
   updateData no_json ''people'' (body people_update) ''2026-02-26T00:00:00.000Z''
     = Inr [(''display_name'', JStr ''Binh''), (''updated_at'', JStr ''2026-02-26T00:00:00.000Z'')] \<and>
   ''events'' \<notin> set TABLES_WITH_UPDATED_AT \<and>
   updateData no_json ''events'' (One [(''title'', JStr ''Gio to'')]) ''2026-02-26T00:00:00.000Z''
     = Inr [(''title'', JStr ''Gio to'')] \<and>
   buildWhere (filters people_update) (Some (table people_update)) = Inr ([], []) \<and>
   \<not> wantsRows people_update \<and>
   executeUpdate echo_world [] people_update = (Inr \<lparr>data = JNull, error = None\<rparr>, [])"
proof -
  have ev: "updateData no_json ''people'' (body people_update) ''2026-02-26T00:00:00.000Z''
     = Inr [(''display_name'', JStr ''Binh''), (''updated_at'', JStr ''2026-02-26T00:00:00.000Z'')]"
    "updateData no_json ''events'' (One [(''title'', JStr ''Gio to'')]) ''2026-02-26T00:00:00.000Z''
     = Inr [(''title'', JStr ''Gio to'')]"
    by (simp_all add: updateData_def people_update_def coerceDataToSqlite_def BOOLEAN_COLUMNS_def
        JSON_COLUMNS_def andThen_def TABLES_WITH_UPDATED_AT_def object_prototype_names_def)
  have w: "json echo_world = no_json" "nowISO echo_world 0 = ''2026-02-26T00:00:00.000Z''"
    "table people_update = ''people''" "\<And>sql ps. run echo_world [] sql ps = Inr []"
    "buildWhere (filters people_update) (Some (table people_update)) = Inr ([], [])"
    "\<not> wantsRows people_update"
    by (simp_all add: echo_world_def people_update_def digit_char_def buildWhere_def andThen_def
        wantsRows_def)
  from update_stamps_updated_at [of no_json "''people''" "body people_update"
      "''2026-02-26T00:00:00.000Z''" echo_world people_update "[]"]
    update_stamps_updated_at [of no_json "''events''" "One [(''title'', JStr ''Gio to'')]"
      "''2026-02-26T00:00:00.000Z''" echo_world people_update "[]"] ev w
  show ?thesis
    by (simp add: TABLES_WITH_UPDATED_AT_def orThrow_def)
qed

section \<open>Properties of the query executor: the row limit\<close>

lemma executeSelect_limit_irrelevant:
  "limitClause (limit p) = limitClause l \<Longrightarrow>
     executeSelect W db (p\<lparr>limit := l\<rparr>) = executeSelect W db p"
  by (simp add: executeSelect_def selectRows_def selectSql_def cong: if_cong)

text \<open>
  Claim C10. With a row limit of 0 the statement \<open>executeSelect\<close> compiles ends after the
  ORDER BY part: it is the statement compiled without a limit, and the read returns what
  the read without a limit returns. A LIMIT part is appended exactly when the limit is a
  nonzero number.
\<close>

theorem select_limit_zero:
  "(limit p = Some 0 \<longrightarrow>
      selectSql p clause =
        ''SELECT '' @ selectColumns (columns p) @ '' FROM '' @ quoted (table p) @ '' '' @ clause
          @ orderClause (ordering p) \<and>
      selectSql p clause = selectSql (p\<lparr>limit := None\<rparr>) clause \<and>
      executeSelect W db p = executeSelect W db (p\<lparr>limit := None\<rparr>)) \<and>
   (limitClause (limit p) \<noteq> [] \<longleftrightarrow> (\<exists>n. limit p = Some n \<and> n \<noteq> 0)) \<and>
   (\<forall>n. limit p = Some n \<and> n \<noteq> 0 \<longrightarrow>
      selectSql p clause = selectSql (p\<lparr>limit := None\<rparr>) clause @ '' LIMIT '' @ show_int n)"
proof -
  have a: "limit p = Some 0 \<longrightarrow>
      selectSql p clause =
        ''SELECT '' @ selectColumns (columns p) @ '' FROM '' @ quoted (table p) @ '' '' @ clause
          @ orderClause (ordering p) \<and>
      selectSql p clause = selectSql (p\<lparr>limit := None\<rparr>) clause"
    by (simp add: selectSql_def limitClause_def)
  have b: "limit p = Some 0 \<longrightarrow> executeSelect W db p = executeSelect W db (p\<lparr>limit := None\<rparr>)"
    using executeSelect_limit_irrelevant [of p None W db] by (simp add: limitClause_def)
  have c: "limitClause (limit p) \<noteq> [] \<longleftrightarrow> (\<exists>n. limit p = Some n \<and> n \<noteq> 0)"
    by (cases "limit p") (simp_all add: limitClause_def)
  have d: "\<forall>n. limit p = Some n \<and> n \<noteq> 0 \<longrightarrow>
      selectSql p clause = selectSql (p\<lparr>limit := None\<rparr>) clause @ '' LIMIT '' @ show_int n"
    by (simp add: selectSql_def limitClause_def)
  from a b c d show ?thesis by blast
qed

theorem select_limit_zero_witness:
  "limit (people_query\<lparr>limit := Some 0\<rparr>) = Some 0 \<and>
   selectSql (people_query\<lparr>limit := Some 0\<rparr>) [] = ''SELECT * FROM '' @ quoted ''people'' @ '' '' \<and>
   executeSelect echo_world [[(''id'', JStr ''a'')], [(''id'', JStr ''b'')]]
       (people_query\<lparr>limit := Some 0\<rparr>)
     = Inr \<lparr>data = JArr [JObj [(''id'', JStr ''a'')], JObj [(''id'', JStr ''b'')]], error = None\<rparr> \<and>
   selectSql (people_query\<lparr>limit := Some 2\<rparr>) []
     = ''SELECT * FROM '' @ quoted ''people'' @ ''  LIMIT 2''"
proof -
  have run: "executeSelect echo_world [[(''id'', JStr ''a'')], [(''id'', JStr ''b'')]]
       (people_query\<lparr>limit := None\<rparr>)
     = Inr \<lparr>data = JArr [JObj [(''id'', JStr ''a'')], JObj [(''id'', JStr ''b'')]], error = None\<rparr>"
    by (simp add: executeSelect_def selectRows_def buildWhere_def andThen_def people_query_def
        echo_world_def coerceRowFromSqlite_def BOOLEAN_COLUMNS_def JSON_COLUMNS_def no_json_def
        object_prototype_names_def)
  from select_limit_zero [of "people_query\<lparr>limit := Some 0\<rparr>" "[]" echo_world
      "[[(''id'', JStr ''a'')], [(''id'', JStr ''b'')]]"]
    select_limit_zero [of "people_query\<lparr>limit := Some 2\<rparr>" "[]" echo_world "[]"]
    run
  show ?thesis
    by (simp add: people_query_def selectSql_def selectColumns_def orderClause_def limitClause_def
        show_int_def digit_char_def)
qed

end
